theory Spec2Isabelle
  imports Main "HOL-Library.Word" "HOL-Library.Sublist" "HOL-Library.Stream"
begin

section \<open>Text and bytes\<close>

text \<open>
  A Python \<open>str\<close> is a sequence of Unicode code points, and \<open>len\<close> and slicing count
  code points. A code point is a number below \<open>0x110000\<close>; the surrogates
  \<open>0xD800..0xDFFF\<close> are code points too, and a \<open>str\<close> may hold them (\<open>json.loads\<close>
  produces one from the escape \<open>\ud800\<close>).
\<close>

typedef uchar = "{n::nat. n < 0x110000}"
  morphisms code_point Abs_uchar
  by (rule exI [of _ 0]) simp

definition uc :: "nat \<Rightarrow> uchar" where
  "uc n = Abs_uchar (if n < 0x110000 then n else 0xFFFD)"

type_synonym str = "uchar list"

text \<open>The Unicode scalar values are the code points that are no surrogates. UTF-8
  encodes exactly the texts made of them: \<open>s.encode('utf-8')\<close> raises
  \<open>UnicodeEncodeError\<close> on a text that holds a surrogate.\<close>

definition is_scalar :: "nat \<Rightarrow> bool" where
  "is_scalar n \<longleftrightarrow> n < 0xD800 \<or> (0xE000 \<le> n \<and> n < 0x110000)"

definition encodable :: "str \<Rightarrow> bool" where
  "encodable s = list_all (\<lambda>c. is_scalar (code_point c)) s"

definition ascii :: "string \<Rightarrow> str" where
  "ascii s = map (\<lambda>c. uc (of_char c)) s"

type_synonym byte = "8 word"
type_synonym bytes = "byte list"

section \<open>Library interface\<close>

text \<open>
  \<open>encrypt_data\<close> and \<open>decrypt_data\<close> are compositions of library calls: the UTF-8 codec
  of \<open>str\<close>, PKCS7 padding and AES in CBC mode from PyCryptodome, \<open>base64\<close> and \<open>json\<close>.
  Padding and the CBC chaining are written out below; the AES block functions and the
  three codecs are parameters, collected in one record.
  \<^item> \<open>aes_encrypt key block\<close>, \<open>aes_decrypt key block\<close>: the block cipher on one 16-byte block;
  \<^item> \<open>utf8_encode\<close>, \<open>utf8_decode\<close>: \<open>s.encode('utf-8')\<close> and \<open>b.decode('utf-8')\<close>,
    \<open>None\<close> where Python raises \<open>UnicodeEncodeError\<close> and \<open>UnicodeDecodeError\<close>;
  \<^item> \<open>b64encode\<close>, \<open>b64decode\<close>: \<open>base64.b64encode(b).decode('utf-8')\<close> and
    \<open>base64.b64decode(s)\<close>, the latter \<open>None\<close> where Python raises;
  \<^item> \<open>json_dumps iv ct\<close>: \<open>json.dumps({'iv': iv, 'ciphertext': ct})\<close>;
  \<^item> \<open>json_loads s\<close>: \<open>json.loads(s)\<close> followed by the lookups \<open>['iv']\<close> and
    \<open>['ciphertext']\<close>, \<open>None\<close> where any of the three raises.
\<close>

record lib =
  aes_encrypt :: "bytes \<Rightarrow> bytes \<Rightarrow> bytes"
  aes_decrypt :: "bytes \<Rightarrow> bytes \<Rightarrow> bytes"
  utf8_encode :: "str \<Rightarrow> bytes option"
  utf8_decode :: "bytes \<Rightarrow> str option"
  b64encode :: "bytes \<Rightarrow> str"
  b64decode :: "str \<Rightarrow> bytes option"
  json_dumps :: "str \<Rightarrow> str \<Rightarrow> str"
  json_loads :: "str \<Rightarrow> (str \<times> str) option"

text \<open>A text that PostgreSQL stores in a \<open>TEXT\<close> column: it can be sent as UTF-8 and
  holds no U+0000.\<close>

definition has_nul :: "str \<Rightarrow> bool" where
  "has_nul s = list_ex (\<lambda>c. code_point c = 0) s"

definition storable_char :: "uchar \<Rightarrow> bool" where
  "storable_char c \<longleftrightarrow> is_scalar (code_point c) \<and> code_point c \<noteq> 0"

definition storable :: "str \<Rightarrow> bool" where
  "storable s \<longleftrightarrow> encodable s \<and> \<not> has_nul s"

text \<open>What the libraries guarantee: decryption inverts encryption on a block under the
  same key and blocks stay 16 bytes long; UTF-8 encodes exactly the texts without
  surrogates and its decoder inverts its encoder, as the base64 decoder does;
  \<open>json.loads\<close> reads back a dumped pair of base64 strings, and such a dump is never
  the empty string and is plain text that the database stores.\<close>

definition block_cipher_ok :: "lib \<Rightarrow> bool" where
  "block_cipher_ok L \<longleftrightarrow>
     (\<forall>k b. length b = 16 \<longrightarrow>
        length (aes_encrypt L k b) = 16 \<and> aes_decrypt L k (aes_encrypt L k b) = b)"

definition codecs_ok :: "lib \<Rightarrow> bool" where
  "codecs_ok L \<longleftrightarrow>
     (\<forall>x. (utf8_encode L x = None) = (\<not> encodable x)) \<and>
     (\<forall>x b. utf8_encode L x = Some b \<longrightarrow> utf8_decode L b = Some x) \<and>
     (\<forall>b. b64decode L (b64encode L b) = Some b) \<and>
     (\<forall>a b. json_loads L (json_dumps L (b64encode L a) (b64encode L b))
              = Some (b64encode L a, b64encode L b)) \<and>
     (\<forall>a b. json_dumps L (b64encode L a) (b64encode L b) \<noteq> []
            \<and> storable (json_dumps L (b64encode L a) (b64encode L b)))"

definition lib_ok :: "lib \<Rightarrow> bool" where
  "lib_ok L \<longleftrightarrow> block_cipher_ok L \<and> codecs_ok L"

section \<open>Crypto-at-rest: padding, CBC, encrypt_data and decrypt_data\<close>

datatype py_exn =
    JSONDecodeError
  | Base64Error
  | ValueError
  | UnicodeEncodeError
  | UnicodeDecodeError
  | DataError
  | CharacterNotInRepertoireError
  | UniqueViolationError
  | PostgresError

definition block_size :: nat where
  "block_size = 16"

text \<open>\<open>Crypto.Util.Padding.pad(data, 16)\<close>: PKCS7 appends \<open>n\<close> bytes of value \<open>n\<close>, with
  \<open>n = 16 - len(data) % 16\<close>, a whole block when the data is already aligned.\<close>

definition pad :: "bytes \<Rightarrow> bytes" where
  "pad d = (let n = block_size - length d mod block_size in d @ replicate n (of_nat n))"

text \<open>\<open>Crypto.Util.Padding.unpad(data, 16)\<close>: raises \<open>ValueError\<close> on empty or unaligned
  input, on a last byte outside \<open>1..16\<close>, and when the last \<open>n\<close> bytes are not all \<open>n\<close>.\<close>

definition unpad :: "bytes \<Rightarrow> bytes option" where
  "unpad p =
     (if length p = 0 then None
      else if length p mod block_size \<noteq> 0 then None
      else let n = unat (last p) in
        if n < 1 \<or> n > min block_size (length p) then None
        else if drop (length p - n) p \<noteq> replicate n (of_nat n) then None
        else Some (take (length p - n) p))"

definition xor_bytes :: "bytes \<Rightarrow> bytes \<Rightarrow> bytes" where
  "xor_bytes a b = map2 (\<lambda>x y. xor x y) a b"

text \<open>CBC mode over a block function: each plaintext block is xored with the previous
  ciphertext block (the IV for the first) before it is encrypted.\<close>

function cbc_encrypt :: "(bytes \<Rightarrow> bytes) \<Rightarrow> bytes \<Rightarrow> bytes \<Rightarrow> bytes" where
  "cbc_encrypt E prev m =
     (if m = [] then []
      else let c = E (xor_bytes (take block_size m) prev)
           in c @ cbc_encrypt E c (drop block_size m))"
  by pat_completeness auto
termination
  by (relation "measure (\<lambda>(E, prev, m). length m)") (auto simp: block_size_def)

function cbc_decrypt :: "(bytes \<Rightarrow> bytes) \<Rightarrow> bytes \<Rightarrow> bytes \<Rightarrow> bytes" where
  "cbc_decrypt D prev c =
     (if c = [] then []
      else xor_bytes (D (take block_size c)) prev
           @ cbc_decrypt D (take block_size c) (drop block_size c))"
  by pat_completeness auto
termination
  by (relation "measure (\<lambda>(D, prev, c). length c)") (auto simp: block_size_def)

declare cbc_encrypt.simps [simp del] cbc_decrypt.simps [simp del]

text \<open>\<open>AES.new\<close> accepts keys of 16, 24 or 32 bytes and raises \<open>ValueError\<close> otherwise.\<close>

definition aes_key_ok :: "bytes \<Rightarrow> bool" where
  "aes_key_ok key \<longleftrightarrow> length key = 16 \<or> length key = 24 \<or> length key = 32"

text \<open>The random source of the process is the stream of the bytes it is going to
  yield: \<open>get_random_bytes(n)\<close> takes the next \<open>n\<close> of them and leaves the rest.\<close>

definition get_random_bytes :: "nat \<Rightarrow> byte stream \<Rightarrow> bytes \<times> byte stream" where
  "get_random_bytes n src = (stake n src, sdrop n src)"

text \<open>
  \<open>encrypt_data(data)\<close>, with the process-wide key and the random source as arguments;
  it returns the source it leaves behind beside its result. \<open>AES.new(ENCRYPTION_KEY,
  AES.MODE_CBC)\<close> checks the key and then draws a 16-byte IV with \<open>get_random_bytes\<close>;
  \<open>data.encode('utf-8')\<close> raises \<open>UnicodeEncodeError\<close> on a text with a surrogate.
\<close>

definition encrypt_data ::
  "lib \<Rightarrow> bytes \<Rightarrow> byte stream \<Rightarrow> str \<Rightarrow> (py_exn + str) \<times> byte stream" where
  "encrypt_data L key src data =
     (if \<not> aes_key_ok key then (Inl ValueError, src)
      else let (iv, src') = get_random_bytes block_size src
           in case utf8_encode L data of
                None \<Rightarrow> (Inl UnicodeEncodeError, src')
              | Some plain \<Rightarrow>
                  let ct_bytes = cbc_encrypt (aes_encrypt L key) iv (pad plain);
                      iv64 = b64encode L iv;
                      ct = b64encode L ct_bytes
                  in (Inr (json_dumps L iv64 ct), src'))"

text \<open>\<open>decrypt_data(encrypted_data)\<close>, every raise of the body as an \<open>Inl\<close>: the JSON
  parse and key lookups, the two base64 decodings, \<open>AES.new\<close> (key and IV length),
  \<open>cipher.decrypt\<close> (ciphertext length), \<open>unpad\<close> and the UTF-8 decoding.\<close>

definition decrypt_data :: "lib \<Rightarrow> bytes \<Rightarrow> str \<Rightarrow> py_exn + str" where
  "decrypt_data L key encrypted_data =
     (case json_loads L encrypted_data of
        None \<Rightarrow> Inl JSONDecodeError
      | Some (iv64, ct64) \<Rightarrow>
          (case b64decode L iv64 of
             None \<Rightarrow> Inl Base64Error
           | Some iv \<Rightarrow>
               (case b64decode L ct64 of
                  None \<Rightarrow> Inl Base64Error
                | Some ct \<Rightarrow>
                    if \<not> aes_key_ok key then Inl ValueError
                    else if length iv \<noteq> block_size then Inl ValueError
                    else if length ct mod block_size \<noteq> 0 then Inl ValueError
                    else (case unpad (cbc_decrypt (aes_decrypt L key) iv ct) of
                            None \<Rightarrow> Inl ValueError
                          | Some pt \<Rightarrow>
                              (case utf8_decode L pt of
                                 None \<Rightarrow> Inl UnicodeDecodeError
                               | Some s \<Rightarrow> Inr s)))))"

section \<open>Collaborating services\<close>

text \<open>The dictionary \<open>call_service\<close> returns, by the keys this module reads from it:
  \<open>"error"\<close>, \<open>"authorized"\<close> and \<open>"response"\<close>; \<open>None\<close> is an absent key.\<close>

record reply =
  r_error :: "str option"
  r_authorized :: "bool option"
  r_response :: "str option"

text \<open>What one HTTP POST can do: \<open>Raised e\<close> when \<open>session.post\<close> or \<open>response.json()\<close>
  raises an exception whose text is \<open>e\<close>; \<open>Status code body js\<close> when a response arrives
  with that status, \<open>body\<close> its text and \<open>js\<close> its JSON payload.\<close>

datatype http_outcome = Raised str | Status nat str reply

text \<open>The calls a request makes, in the order it makes them.\<close>

datatype event =
    CallAuth int
  | CallML int
  | LogError
  | DbConnect
  | DbFetch
  | DbExecute
  | DbClose
  | Encrypt
  | Decrypt

definition error_reply :: "str \<Rightarrow> reply" where
  "error_reply e = \<lparr>r_error = Some e, r_authorized = None, r_response = None\<rparr>"

definition call_service :: "http_outcome \<Rightarrow> reply \<times> event list" where
  "call_service out =
     (case out of
        Status code body js \<Rightarrow>
          if code = 200 then (js, [])
          else (error_reply body, [LogError])
      | Raised e \<Rightarrow> (error_reply e, [LogError]))"

record context_entry =
  role :: str
  content :: "str option"

text \<open>What the outside world supplies to one request: the identifier \<open>uuid.uuid4()\<close>
  draws, the database clock \<open>NOW()\<close>, the random source as the request finds it, and the
  two services.\<close>

record world =
  uuid4 :: str
  now :: nat
  random_source :: "byte stream"
  auth_service :: "int \<Rightarrow> http_outcome"
  ml_service :: "int \<Rightarrow> str \<Rightarrow> context_entry list \<Rightarrow> http_outcome"

text \<open>The apology of \<open>get_ml_response\<close>, by its code points.\<close>

definition ml_apology :: str where
  "ml_apology = map uc
     [1050, 32, 1089, 1086, 1078, 1072, 1083, 1077, 1085, 1080, 1102, 44, 32,
      1087, 1088, 1086, 1080, 1079, 1086, 1096, 1083, 1072, 32,
      1086, 1096, 1080, 1073, 1082, 1072, 32, 1087, 1088, 1080, 32,
      1086, 1073, 1088, 1072, 1073, 1086, 1090, 1082, 1077, 32,
      1074, 1072, 1096, 1077, 1075, 1086, 32,
      1079, 1072, 1087, 1088, 1086, 1089, 1072, 46]"

definition get_ml_response ::
  "world \<Rightarrow> int \<Rightarrow> str \<Rightarrow> context_entry list \<Rightarrow> str \<times> event list" where
  "get_ml_response w user message_text context =
     (let (result, t) = call_service (ml_service w user message_text context)
      in if r_error result \<noteq> None then (ml_apology, CallML user # t @ [LogError])
         else (case r_response result of None \<Rightarrow> [] | Some s \<Rightarrow> s, CallML user # t))"

definition check_authorization :: "world \<Rightarrow> int \<Rightarrow> bool \<times> event list" where
  "check_authorization w user =
     (let (result, t) = call_service (auth_service w user)
      in (case r_authorized result of None \<Rightarrow> False | Some b \<Rightarrow> b, CallAuth user # t))"

section \<open>The dialogs table\<close>

text \<open>One row of \<open>dialogs\<close>. \<open>message_id\<close> is the primary key; a nullable column is an
  \<open>option\<close>. \<open>is_bot_message\<close> defaults to \<open>FALSE\<close> and \<open>sent_at\<close> to \<open>NOW()\<close>.\<close>

record turn =
  message_id :: str
  user_id :: int
  chat_id :: int
  message_text :: "str option"
  is_bot_message :: bool
  sent_at :: nat
  delivered_at :: "nat option"
  read_at :: "nat option"
  full_answer :: "str option"

type_synonym dialogs = "turn list"

text \<open>A query argument for a \<open>BIGINT\<close> column is sent as a signed 64-bit integer;
  asyncpg raises \<open>DataError\<close> for a Python \<open>int\<close> outside that range.\<close>

definition in_bigint :: "int \<Rightarrow> bool" where
  "in_bigint n \<longleftrightarrow> - (2 ^ 63) \<le> n \<and> n < 2 ^ 63"

text \<open>A text argument is sent as UTF-8: asyncpg raises \<open>DataError\<close> for a text with a
  surrogate. The server refuses a text with U+0000
  (\<open>CharacterNotInRepertoireError\<close>).\<close>

definition sendable :: "str option \<Rightarrow> bool" where
  "sendable v = (case v of None \<Rightarrow> True | Some s \<Rightarrow> encodable s)"

definition nul_free :: "str option \<Rightarrow> bool" where
  "nul_free v = (case v of None \<Rightarrow> True | Some s \<Rightarrow> \<not> has_nul s)"

text \<open>\<open>INSERT INTO dialogs\<close>. The arguments are encoded first, then the server reads
  them, then the primary key refuses a second row with the same \<open>message_id\<close>.\<close>

definition insert_turn :: "turn \<Rightarrow> dialogs \<Rightarrow> py_exn + dialogs" where
  "insert_turn row db =
     (if \<not> (encodable (message_id row) \<and> in_bigint (user_id row) \<and> in_bigint (chat_id row)
             \<and> sendable (message_text row) \<and> sendable (full_answer row))
      then Inl DataError
      else if has_nul (message_id row) \<or> \<not> nul_free (message_text row)
              \<or> \<not> nul_free (full_answer row)
      then Inl CharacterNotInRepertoireError
      else if message_id row \<in> set (map message_id db) then Inl UniqueViolationError
      else Inr (db @ [row]))"

text \<open>\<open>ORDER BY sent_at DESC\<close>: the rows by decreasing \<open>sent_at\<close>. SQL leaves the order of
  rows with equal \<open>sent_at\<close> open; here they stay in the order of the table, the order
  of their insertion.\<close>

definition order_by_sent_at_desc :: "turn list \<Rightarrow> turn list" where
  "order_by_sent_at_desc rows = sort_key (\<lambda>r. - int (sent_at r)) rows"

text \<open>The rows of the query of \<open>process_message\<close>:
  \<open>WHERE user_id = $1 AND chat_id = $2 ORDER BY sent_at DESC LIMIT 10\<close>.\<close>

definition context_rows :: "dialogs \<Rightarrow> int \<Rightarrow> int \<Rightarrow> turn list" where
  "context_rows db user chat =
     take 10 (order_by_sent_at_desc (filter (\<lambda>r. user_id r = user \<and> chat_id r = chat) db))"

text \<open>The query itself, \<open>conn.fetch\<close> with the two identifiers as arguments.\<close>

definition select_context :: "dialogs \<Rightarrow> int \<Rightarrow> int \<Rightarrow> py_exn + turn list" where
  "select_context db user chat =
     (if \<not> (in_bigint user \<and> in_bigint chat) then Inl DataError
      else Inr (context_rows db user chat))"

text \<open>The query of \<open>get_full_answer\<close>, read with \<open>fetchval\<close>: the \<open>full_answer\<close> column of
  the first row \<open>WHERE message_id = $1 AND user_id = $2\<close>, \<open>None\<close> when there is no row.\<close>

definition select_full_answer :: "dialogs \<Rightarrow> str \<Rightarrow> int \<Rightarrow> str option" where
  "select_full_answer db mid user =
     (case filter (\<lambda>r. message_id r = mid \<and> user_id r = user) db of
        [] \<Rightarrow> None
      | r # _ \<Rightarrow> full_answer r)"

text \<open>\<open>UPDATE dialogs SET read_at = NOW() WHERE message_id = $1\<close>.\<close>

definition update_read_at :: "nat \<Rightarrow> str \<Rightarrow> dialogs \<Rightarrow> dialogs" where
  "update_read_at t mid db =
     map (\<lambda>r. if message_id r = mid then r\<lparr>read_at := Some t\<rparr> else r) db"

text \<open>The query of \<open>get_dialog_history\<close>:
  \<open>WHERE user_id = $1 ORDER BY sent_at DESC LIMIT $2\<close>. PostgreSQL refuses a negative
  \<open>LIMIT\<close>.\<close>

definition select_history :: "dialogs \<Rightarrow> int \<Rightarrow> int \<Rightarrow> py_exn + turn list" where
  "select_history db user limit =
     (if \<not> (in_bigint user \<and> in_bigint limit) then Inl DataError
      else if limit < 0 then Inl PostgresError
      else Inr (take (nat limit) (order_by_sent_at_desc (filter (\<lambda>r. user_id r = user) db))))"

text \<open>Python's truth value of a nullable text: \<open>None\<close> and \<open>""\<close> are false.\<close>

definition truthy :: "str option \<Rightarrow> bool" where
  "truthy v = (case v of None \<Rightarrow> False | Some s \<Rightarrow> s \<noteq> [])"

section \<open>The routes\<close>

text \<open>What a route leaves behind: its return value, or the exception that escapes it
  (\<open>Inl\<close>), the table after it, and the calls it made.\<close>

record 'a outcome =
  result :: "py_exn + 'a"
  store :: dialogs
  trace :: "event list"

definition MAX_TRUNCATED_LENGTH :: nat where
  "MAX_TRUNCATED_LENGTH = 100"

record message =
  m_user_id :: int
  m_message_text :: str
  m_chat_id :: int

record log_message_request =
  l_user_id :: int
  l_chat_id :: int
  l_message_text :: str
  l_is_bot_message :: bool

record full_answer_request =
  q_user_id :: int
  q_message_id :: str

text \<open>The dictionary \<open>process_message\<close> returns.\<close>

record process_reply =
  p_full_answer :: "str option"
  p_truncated_answer :: "str option"
  p_message_id :: str

text \<open>Lines 198 to 207 of \<open>process_message\<close>: the context made from the fetched rows
  and the new message.\<close>

definition build_context :: "turn list \<Rightarrow> message \<Rightarrow> context_entry list" where
  "build_context fetched message =
     (let context =
            map (\<lambda>row. \<lparr>role = if is_bot_message row then ascii ''assistant'' else ascii ''user'',
                        content = message_text row\<rparr>)
              (rev fetched)
      in context @ [\<lparr>role = ascii ''user'', content = Some (m_message_text message)\<rparr>])"

text \<open>Lines 189 to 207 together: the context handed to the ML service, which is reached
  when the query does not raise.\<close>

definition context_window :: "dialogs \<Rightarrow> message \<Rightarrow> context_entry list" where
  "context_window db message =
     build_context (context_rows db (m_user_id message) (m_chat_id message)) message"

definition process_message ::
  "lib \<Rightarrow> bytes \<Rightarrow> world \<Rightarrow> dialogs \<Rightarrow> message \<Rightarrow> process_reply outcome" where
  "process_message L key w db message =
     (case select_context db (m_user_id message) (m_chat_id message) of
        Inl e \<Rightarrow> \<lparr>result = Inl e, store = db, trace = [DbConnect, DbFetch, DbClose]\<rparr>
      | Inr fetched \<Rightarrow>
          (let mid = uuid4 w;
               context = build_context fetched message;
               (answer, t_ml) =
                 get_ml_response w (m_user_id message) (m_message_text message) context;
               (authorized, t_auth) = check_authorization w (m_user_id message);
               t = [DbConnect, DbFetch] @ t_ml @ t_auth @ [Encrypt]
           in case fst (encrypt_data L key (random_source w) answer) of
                Inl e \<Rightarrow> \<lparr>result = Inl e, store = db, trace = t @ [DbClose]\<rparr>
              | Inr encrypted_answer \<Rightarrow>
                  (case insert_turn
                          \<lparr>message_id = mid, user_id = m_user_id message,
                           chat_id = m_chat_id message,
                           message_text = Some (m_message_text message), is_bot_message = False,
                           sent_at = now w, delivered_at = None, read_at = None,
                           full_answer = Some encrypted_answer\<rparr> db of
                     Inl e \<Rightarrow> \<lparr>result = Inl e, store = db, trace = t @ [DbExecute, DbClose]\<rparr>
                   | Inr db' \<Rightarrow>
                       \<lparr>result = Inr
                          (if authorized then
                             \<lparr>p_full_answer = Some answer, p_truncated_answer = None,
                              p_message_id = mid\<rparr>
                           else
                             let truncated_answer = take MAX_TRUNCATED_LENGTH answer;
                                 truncated_answer =
                                   (if length answer > MAX_TRUNCATED_LENGTH
                                    then truncated_answer @ ascii ''...''
                                    else truncated_answer)
                             in \<lparr>p_full_answer = None,
                                 p_truncated_answer = Some truncated_answer,
                                 p_message_id = mid\<rparr>),
                        store = db', trace = t @ [DbExecute, DbClose]\<rparr>)))"

text \<open>\<open>log_message\<close> returns \<open>{"status": "logged", "message_id": message_id}\<close>; the model
  returns the identifier.\<close>

definition log_message ::
  "lib \<Rightarrow> bytes \<Rightarrow> world \<Rightarrow> dialogs \<Rightarrow> log_message_request \<Rightarrow> str outcome" where
  "log_message L key w db message =
     (let mid = uuid4 w;
          enc = (if l_message_text message \<noteq> []
                 then map_sum id Some
                        (fst (encrypt_data L key (random_source w) (l_message_text message)))
                 else Inr None);
          t = DbConnect # (if l_message_text message \<noteq> [] then [Encrypt] else [])
      in case enc of
           Inl e \<Rightarrow> \<lparr>result = Inl e, store = db, trace = t @ [DbClose]\<rparr>
         | Inr encrypted_text \<Rightarrow>
             (case insert_turn
                     \<lparr>message_id = mid, user_id = l_user_id message, chat_id = l_chat_id message,
                      message_text = encrypted_text, is_bot_message = l_is_bot_message message,
                      sent_at = now w, delivered_at = None, read_at = None,
                      full_answer = None\<rparr> db of
                Inl e \<Rightarrow> \<lparr>result = Inl e, store = db, trace = t @ [DbExecute, DbClose]\<rparr>
              | Inr db' \<Rightarrow> \<lparr>result = Inr mid, store = db', trace = t @ [DbExecute, DbClose]\<rparr>))"

text \<open>The dictionary \<open>get_full_answer\<close> returns: \<open>{"error": e}\<close> or \<open>{"full_answer": a}\<close>.\<close>

datatype full_answer_reply = ErrorReply str | FullAnswerReply str

definition NotAuthorized :: full_answer_reply where
  "NotAuthorized = ErrorReply (ascii ''Not authorized'')"

definition NotFound :: full_answer_reply where
  "NotFound = ErrorReply (ascii ''Answer not found'')"

definition get_full_answer ::
  "lib \<Rightarrow> bytes \<Rightarrow> world \<Rightarrow> dialogs \<Rightarrow> full_answer_request \<Rightarrow> full_answer_reply outcome" where
  "get_full_answer L key w db request =
     (let (authorized, t_auth) = check_authorization w (q_user_id request)
      in if \<not> authorized then \<lparr>result = Inr NotAuthorized, store = db, trace = t_auth\<rparr>
         else
           let encrypted_answer = select_full_answer db (q_message_id request) (q_user_id request);
               t = t_auth @ [DbConnect, DbFetch]
           in if \<not> truthy encrypted_answer
              then \<lparr>result = Inr NotFound, store = db, trace = t @ [DbClose]\<rparr>
              else (case decrypt_data L key (the encrypted_answer) of
                      Inl e \<Rightarrow> \<lparr>result = Inl e, store = db, trace = t @ [Decrypt, DbClose]\<rparr>
                    | Inr answer \<Rightarrow>
                        \<lparr>result = Inr (FullAnswerReply answer),
                         store = update_read_at (now w) (q_message_id request) db,
                         trace = t @ [Decrypt, DbExecute, DbClose]\<rparr>))"

text \<open>One entry of the history; \<open>None\<close> in the last two fields is an absent key.\<close>

record history_item =
  h_message_id :: str
  h_is_bot_message :: bool
  h_sent_at :: nat
  h_message_text :: "str option"
  h_full_answer :: "str option"

text \<open>The placeholder of \<open>get_dialog_history\<close>, by its code points.\<close>

definition decrypt_placeholder :: str where
  "decrypt_placeholder = map uc
     [91, 1054, 1096, 1080, 1073, 1082, 1072, 32,
      1088, 1072, 1089, 1096, 1080, 1092, 1088, 1086, 1074, 1082, 1080, 93]"

text \<open>A decryption inside \<open>try ... except Exception\<close>: the failure is logged and the
  placeholder stands for the plaintext.\<close>

definition try_decrypt :: "lib \<Rightarrow> bytes \<Rightarrow> str \<Rightarrow> str \<times> event list" where
  "try_decrypt L key s =
     (case decrypt_data L key s of
        Inr plain \<Rightarrow> (plain, [Decrypt])
      | Inl e \<Rightarrow> (decrypt_placeholder, [Decrypt, LogError]))"

text \<open>The body of the loop of \<open>get_dialog_history\<close>.\<close>

definition history_entry :: "lib \<Rightarrow> bytes \<Rightarrow> bool \<Rightarrow> turn \<Rightarrow> history_item \<times> event list" where
  "history_entry L key authorized row =
     (let (mt, t1) =
            (if truthy (message_text row)
             then map_prod Some id (try_decrypt L key (the (message_text row)))
             else (None, []));
          (fa, t2) =
            (if authorized \<and> truthy (full_answer row) \<and> is_bot_message row
             then map_prod Some id (try_decrypt L key (the (full_answer row)))
             else (None, []))
      in (\<lparr>h_message_id = message_id row, h_is_bot_message = is_bot_message row,
           h_sent_at = sent_at row, h_message_text = mt, h_full_answer = fa\<rparr>, t1 @ t2))"

definition get_dialog_history ::
  "lib \<Rightarrow> bytes \<Rightarrow> world \<Rightarrow> dialogs \<Rightarrow> int \<Rightarrow> int \<Rightarrow> history_item list outcome" where
  "get_dialog_history L key w db user limit =
     (let (authorized, t_auth) = check_authorization w user;
          t = DbConnect # t_auth @ [DbFetch]
      in case select_history db user limit of
           Inl e \<Rightarrow> \<lparr>result = Inl e, store = db, trace = t @ [DbClose]\<rparr>
         | Inr rows \<Rightarrow>
             (let entries = map (history_entry L key authorized) rows
              in \<lparr>result = Inr (map fst entries), store = db,
                  trace = t @ concat (map snd entries) @ [DbClose]\<rparr>))"

section \<open>Vocabulary of the claims\<close>

text \<open>What the Authorization Oracle answers for a user, as \<open>check_authorization\<close>
  reads it.\<close>

definition is_authorized :: "world \<Rightarrow> int \<Rightarrow> bool" where
  "is_authorized w user = fst (check_authorization w user)"

text \<open>The answer \<open>A\<close> that \<open>get_ml_response\<close> hands to \<open>process_message\<close> for a
  message.\<close>

definition generated_answer :: "world \<Rightarrow> dialogs \<Rightarrow> message \<Rightarrow> str" where
  "generated_answer w db message =
     fst (get_ml_response w (m_user_id message) (m_message_text message)
            (context_window db message))"

text \<open>The conditions under which \<open>process_message\<close> gets through to its \<open>return\<close>:
  the two identifiers fit \<open>BIGINT\<close>, the key is one AES accepts, the generated answer has
  no surrogate, the message text and the identifier drawn are texts the database stores,
  and the identifier is new to the table.\<close>

definition process_message_accepts :: "bytes \<Rightarrow> world \<Rightarrow> dialogs \<Rightarrow> message \<Rightarrow> bool" where
  "process_message_accepts key w db message \<longleftrightarrow>
     in_bigint (m_user_id message) \<and> in_bigint (m_chat_id message)
     \<and> aes_key_ok key \<and> encodable (generated_answer w db message)
     \<and> storable (m_message_text message) \<and> storable (uuid4 w)
     \<and> uuid4 w \<notin> set (map message_id db)"

text \<open>The same for \<open>log_message\<close>, which encrypts the text (unless it is empty) and
  stores the bundle.\<close>

definition log_message_accepts ::
  "bytes \<Rightarrow> world \<Rightarrow> dialogs \<Rightarrow> log_message_request \<Rightarrow> bool" where
  "log_message_accepts key w db logged \<longleftrightarrow>
     in_bigint (l_user_id logged) \<and> in_bigint (l_chat_id logged)
     \<and> (l_message_text logged = [] \<or> aes_key_ok key \<and> encodable (l_message_text logged))
     \<and> storable (uuid4 w) \<and> uuid4 w \<notin> set (map message_id db)"

text \<open>A failed call to the Auth Service, in the words of C10: the service is
  unreachable (the POST raises), the status is not 200, or the payload is an error
  payload, one with an \<open>error\<close> field.\<close>

definition oracle_call_failed :: "http_outcome \<Rightarrow> bool" where
  "oracle_call_failed out =
     (case out of
        Raised e \<Rightarrow> True
      | Status code body js \<Rightarrow> code \<noteq> 200 \<or> r_error js \<noteq> None)"


text \<open>The primary key of \<open>dialogs\<close>: no two rows share a \<open>message_id\<close>.\<close>

definition primary_key :: "dialogs \<Rightarrow> bool" where
  "primary_key db \<longleftrightarrow> distinct (map message_id db)"

text \<open>The context entry made from a stored row, the stored turns of a (user, chat) pair,
  and the rows of the context window of a message, oldest first.\<close>

definition entry_of :: "turn \<Rightarrow> context_entry" where
  "entry_of row =
     \<lparr>role = if is_bot_message row then ascii ''assistant'' else ascii ''user'',
      content = message_text row\<rparr>"

definition turns_of :: "dialogs \<Rightarrow> int \<Rightarrow> int \<Rightarrow> turn list" where
  "turns_of db user chat = filter (\<lambda>r. user_id r = user \<and> chat_id r = chat) db"

definition window_rows :: "dialogs \<Rightarrow> message \<Rightarrow> turn list" where
  "window_rows db message = rev (context_rows db (m_user_id message) (m_chat_id message))"

text \<open>What \<open>get_dialog_history\<close> shows for a stored text: its plaintext, or the
  placeholder when it does not decrypt.\<close>

definition shown_text :: "lib \<Rightarrow> bytes \<Rightarrow> str \<Rightarrow> str" where
  "shown_text L key s =
     (case decrypt_data L key s of Inr plain \<Rightarrow> plain | Inl e \<Rightarrow> decrypt_placeholder)"

section \<open>An executable instance of the library interface\<close>

text \<open>
  The routes are run on concrete inputs with the instance below. The codecs are the
  standard ones: UTF-8 with Python's strict decoder (no overlong forms, no surrogates,
  nothing above U+10FFFF), base64 with the standard alphabet and padding, and the text
  \<open>json.dumps\<close> writes for a dictionary of two strings. The two readers are stricter
  than Python's and accept what the writers produce: \<open>py_b64decode\<close> refuses a
  character outside the alphabet and text after the padding, which
  \<open>base64.b64decode\<close> skips, and \<open>py_json_loads\<close> reads only the layout that
  \<open>json.dumps\<close> writes, with no escapes inside the two strings. A keyed byte
  substitution stands in for the AES block functions: it permutes the blocks under every
  key, which is what the proofs use of AES.
\<close>

definition is_cont :: "byte \<Rightarrow> bool" where
  "is_cont b \<longleftrightarrow> 0x80 \<le> unat b \<and> unat b < 0xC0"

definition utf8_char :: "uchar \<Rightarrow> bytes" where
  "utf8_char c =
     (let n = code_point c in
      if n < 0x80 then [of_nat n]
      else if n < 0x800 then [of_nat (0xC0 + n div 64), of_nat (0x80 + n mod 64)]
      else if n < 0x10000 then
        [of_nat (0xE0 + n div 4096), of_nat (0x80 + n div 64 mod 64), of_nat (0x80 + n mod 64)]
      else
        [of_nat (0xF0 + n div 262144), of_nat (0x80 + n div 4096 mod 64),
         of_nat (0x80 + n div 64 mod 64), of_nat (0x80 + n mod 64)])"

definition py_utf8_encode :: "str \<Rightarrow> bytes option" where
  "py_utf8_encode s = (if encodable s then Some (concat (map utf8_char s)) else None)"

fun py_utf8_decode :: "bytes \<Rightarrow> str option" where
  "py_utf8_decode [] = Some []"
| "py_utf8_decode (b0 # bs) =
     (let a = unat b0 in
      if a < 0x80 then map_option ((#) (uc a)) (py_utf8_decode bs)
      else if 0xC2 \<le> a \<and> a < 0xE0 then
        (case bs of
           b1 # r \<Rightarrow>
             if is_cont b1
             then map_option ((#) (uc ((a - 0xC0) * 64 + (unat b1 - 0x80)))) (py_utf8_decode r)
             else None
         | _ \<Rightarrow> None)
      else if 0xE0 \<le> a \<and> a < 0xF0 then
        (case bs of
           b1 # b2 # r \<Rightarrow>
             (let n = (a - 0xE0) * 4096 + (unat b1 - 0x80) * 64 + (unat b2 - 0x80) in
              if is_cont b1 \<and> is_cont b2 \<and> 0x800 \<le> n \<and> is_scalar n
              then map_option ((#) (uc n)) (py_utf8_decode r)
              else None)
         | _ \<Rightarrow> None)
      else if 0xF0 \<le> a \<and> a < 0xF5 then
        (case bs of
           b1 # b2 # b3 # r \<Rightarrow>
             (let n = (a - 0xF0) * 262144 + (unat b1 - 0x80) * 4096
                      + (unat b2 - 0x80) * 64 + (unat b3 - 0x80) in
              if is_cont b1 \<and> is_cont b2 \<and> is_cont b3 \<and> 0x10000 \<le> n \<and> n < 0x110000
              then map_option ((#) (uc n)) (py_utf8_decode r)
              else None)
         | _ \<Rightarrow> None)
      else None)"

definition b64_char :: "nat \<Rightarrow> uchar" where
  "b64_char i =
     (if i < 26 then uc (65 + i)
      else if i < 52 then uc (71 + i)
      else if i < 62 then uc (i - 4)
      else if i = 62 then uc 43
      else uc 47)"

definition b64_index :: "uchar \<Rightarrow> nat option" where
  "b64_index c =
     (let n = code_point c in
      if 65 \<le> n \<and> n \<le> 90 then Some (n - 65)
      else if 97 \<le> n \<and> n \<le> 122 then Some (n - 71)
      else if 48 \<le> n \<and> n \<le> 57 then Some (n + 4)
      else if n = 43 then Some 62
      else if n = 47 then Some 63
      else None)"

definition b64_pad :: uchar where
  "b64_pad = uc 61"

fun py_b64encode :: "bytes \<Rightarrow> str" where
  "py_b64encode [] = []"
| "py_b64encode [x] =
     (let a = unat x
      in [b64_char (a div 4), b64_char (a mod 4 * 16), b64_pad, b64_pad])"
| "py_b64encode [x, y] =
     (let a = unat x; b = unat y
      in [b64_char (a div 4), b64_char (a mod 4 * 16 + b div 16), b64_char (b mod 16 * 4),
          b64_pad])"
| "py_b64encode (x # y # z # r) =
     (let a = unat x; b = unat y; c = unat z
      in [b64_char (a div 4), b64_char (a mod 4 * 16 + b div 16),
          b64_char (b mod 16 * 4 + c div 64), b64_char (c mod 64)] @ py_b64encode r)"

fun py_b64decode :: "str \<Rightarrow> bytes option" where
  "py_b64decode [] = Some []"
| "py_b64decode (c0 # c1 # c2 # c3 # r) =
     (case (b64_index c0, b64_index c1) of
        (Some s0, Some s1) \<Rightarrow>
          if c2 = b64_pad \<and> c3 = b64_pad \<and> r = [] then Some [of_nat (s0 * 4 + s1 div 16)]
          else (case b64_index c2 of
                  None \<Rightarrow> None
                | Some s2 \<Rightarrow>
                    if c3 = b64_pad \<and> r = []
                    then Some [of_nat (s0 * 4 + s1 div 16), of_nat (s1 mod 16 * 16 + s2 div 4)]
                    else (case b64_index c3 of
                            None \<Rightarrow> None
                          | Some s3 \<Rightarrow>
                              map_option
                                (\<lambda>bs. [of_nat (s0 * 4 + s1 div 16),
                                       of_nat (s1 mod 16 * 16 + s2 div 4),
                                       of_nat (s2 mod 4 * 64 + s3)] @ bs)
                                (py_b64decode r)))
      | _ \<Rightarrow> None)"
| "py_b64decode _ = None"

definition dquote :: uchar where
  "dquote = uc 34"

definition backslash :: uchar where
  "backslash = uc 92"

definition py_json_dumps :: "str \<Rightarrow> str \<Rightarrow> str" where
  \<open>py_json_dumps iv ct =
     ascii ''{"iv": "'' @ iv @ ascii ''", "ciphertext": "'' @ ct @ ascii ''"}''\<close>

definition after_prefix :: "str \<Rightarrow> str \<Rightarrow> str option" where
  "after_prefix p s = (if take (length p) s = p then Some (drop (length p) s) else None)"

definition read_string :: "str \<Rightarrow> (str \<times> str) option" where
  "read_string s =
     (let v = takeWhile (\<lambda>c. c \<noteq> dquote) s;
          r = dropWhile (\<lambda>c. c \<noteq> dquote) s
      in if r = [] \<or> backslash \<in> set v then None else Some (v, tl r))"

definition py_json_loads :: "str \<Rightarrow> (str \<times> str) option" where
  \<open>py_json_loads s =
     (case after_prefix (ascii ''{"iv": "'') s of
        None \<Rightarrow> None
      | Some s1 \<Rightarrow>
          (case read_string s1 of
             None \<Rightarrow> None
           | Some (iv, s2) \<Rightarrow>
               (case after_prefix (ascii '', "ciphertext": "'') s2 of
                  None \<Rightarrow> None
                | Some s3 \<Rightarrow>
                    (case read_string s3 of
                       None \<Rightarrow> None
                     | Some (ct, s4) \<Rightarrow> if s4 = ascii ''}'' then Some (iv, ct) else None))))\<close>

definition shift_encrypt :: "bytes \<Rightarrow> bytes \<Rightarrow> bytes" where
  "shift_encrypt k b = map (\<lambda>x. x + sum_list k) b"

definition shift_decrypt :: "bytes \<Rightarrow> bytes \<Rightarrow> bytes" where
  "shift_decrypt k b = map (\<lambda>x. x - sum_list k) b"

definition sample_lib :: lib where
  "sample_lib =
     \<lparr>aes_encrypt = shift_encrypt, aes_decrypt = shift_decrypt,
      utf8_encode = py_utf8_encode, utf8_decode = py_utf8_decode,
      b64encode = py_b64encode, b64decode = py_b64decode,
      json_dumps = py_json_dumps, json_loads = py_json_loads\<rparr>"

subsection \<open>Concrete worlds\<close>

definition demo_key :: bytes where
  "demo_key = replicate 32 0x2A"

text \<open>A random source that yields the bytes 0 to 31 again and again, and one that
  yields the same 16 bytes again and again.\<close>

definition demo_source :: "byte stream" where
  "demo_source = cycle (map of_nat [0..<32])"

definition repeating_source :: "byte stream" where
  "repeating_source = cycle (replicate 16 0x11)"

text \<open>The Auth Service answering \<open>{"authorized": b}\<close>, and not answering at all.\<close>

definition oracle_says :: "bool \<Rightarrow> int \<Rightarrow> http_outcome" where
  "oracle_says b user =
     Status 200 [] \<lparr>r_error = None, r_authorized = Some b, r_response = None\<rparr>"


text \<open>A service answering with status 200 and the payload
  \<open>{"error": "failed", "authorized": true, "response": "Hi"}\<close>.\<close>

definition error_payload :: http_outcome where
  "error_payload =
     Status 200 []
       \<lparr>r_error = Some (ascii ''failed''), r_authorized = Some True,
        r_response = Some (ascii ''Hi'')\<rparr>"

text \<open>The ML Service answering \<open>{"response": a}\<close>.\<close>

definition ml_says :: "str \<Rightarrow> int \<Rightarrow> str \<Rightarrow> context_entry list \<Rightarrow> http_outcome" where
  "ml_says a user question context =
     Status 200 [] \<lparr>r_error = None, r_authorized = None, r_response = Some a\<rparr>"

definition oracle_with_error :: "int \<Rightarrow> http_outcome" where
  "oracle_with_error user = error_payload"

definition ml_with_error :: "int \<Rightarrow> str \<Rightarrow> context_entry list \<Rightarrow> http_outcome" where
  "ml_with_error user question context = error_payload"

definition demo_world :: "(int \<Rightarrow> http_outcome) \<Rightarrow> str \<Rightarrow> world" where
  "demo_world oracle a =
     \<lparr>uuid4 = ascii ''m1'', now = 1, random_source = demo_source,
      auth_service = oracle, ml_service = ml_says a\<rparr>"

text \<open>The character U+2026, HORIZONTAL ELLIPSIS, and a text that is one lone
  surrogate, \<open>"\ud800"\<close>.\<close>

definition lone_surrogate :: str where
  "lone_surrogate = [uc 0xD800]"

definition horizontal_ellipsis :: uchar where
  "horizontal_ellipsis = uc 0x2026"

definition demo_message :: message where
  "demo_message = \<lparr>m_user_id = 1, m_message_text = ascii ''Hello'', m_chat_id = 1\<rparr>"

text \<open>A stored row with a given key, owner and \<open>full_answer\<close>.\<close>

definition stored_turn :: "str \<Rightarrow> int \<Rightarrow> str option \<Rightarrow> turn" where
  "stored_turn mid user answer =
     \<lparr>message_id = mid, user_id = user, chat_id = 1, message_text = Some (ascii ''Hello''),
      is_bot_message = False, sent_at = 1, delivered_at = None, read_at = None,
      full_answer = answer\<rparr>"

definition demo_request :: full_answer_request where
  "demo_request = \<lparr>q_user_id = 1, q_message_id = ascii ''m1''\<rparr>"

definition demo_log :: log_message_request where
  "demo_log = \<lparr>l_user_id = 1, l_chat_id = 1, l_message_text = ascii ''Hi'',
                l_is_bot_message = False\<rparr>"

text \<open>Fifteen stored turns of user 1 in chat 1, sent at times 1 to 15.\<close>

definition demo_history :: dialogs where
  "demo_history =
     map (\<lambda>i. \<lparr>message_id = replicate i (uc 109), user_id = 1, chat_id = 1,
                message_text = Some (replicate i (uc 120)), is_bot_message = even i,
                sent_at = i, delivered_at = None, read_at = None, full_answer = None\<rparr>)
       [1..<16]"

section \<open>Properties of the crypto-at-rest functions\<close>

lemma xor_bytes_cancel: "length a = length b \<Longrightarrow> xor_bytes (xor_bytes a b) b = a"
  unfolding xor_bytes_def
  by (induction a b rule: list_induct2) (simp_all add: xor.assoc)

lemma length_xor_bytes: "length (xor_bytes a b) = min (length a) (length b)"
  by (simp add: xor_bytes_def)

lemma pad_length_mod: "length (pad d) mod block_size = 0"
  by (simp add: pad_def Let_def block_size_def) presburger

lemma unpad_pad: "unpad (pad d) = Some d"
proof -
  define n where "n = block_size - length d mod block_size"
  have n: "1 \<le> n" "n \<le> 16" by (simp_all add: n_def block_size_def)
  have p: "pad d = d @ replicate n (of_nat n)" by (simp add: pad_def n_def Let_def)
  have u: "unat (of_nat n :: byte) = n" using n by (simp add: unat_of_nat)
  have l: "last (pad d) = of_nat n" using n by (simp add: p)
  have m: "length (pad d) mod block_size = 0" by (rule pad_length_mod)
  show ?thesis
    unfolding unpad_def l u Let_def using n m
    by (simp add: p block_size_def)
qed

lemma cbc_roundtrip:
  assumes E: "\<And>b. length b = 16 \<Longrightarrow> length (E b) = 16 \<and> D (E b) = b"
  shows "length prev = 16 \<Longrightarrow> length m mod 16 = 0 \<Longrightarrow>
    cbc_decrypt D prev (cbc_encrypt E prev m) = m \<and> length (cbc_encrypt E prev m) = length m"
  using E
proof (induction E prev m rule: cbc_encrypt.induct)
  case (1 E prev m)
  show ?case
  proof (cases "m = []")
    case True
    then show ?thesis by (simp add: cbc_encrypt.simps [of _ _ "[]"] cbc_decrypt.simps [of _ _ "[]"])
  next
    case False
    define b where "b = take block_size m"
    define x where "x = xor_bytes b prev"
    define c where "c = E x"
    define r where "r = cbc_encrypt E c (drop block_size m)"
    from False "1.prems"(2) have len: "16 \<le> length m"
      by (cases "length m < 16") auto
    then have lb: "length b = 16" by (simp add: b_def block_size_def)
    then have lx: "length x = 16" using "1.prems"(1) by (simp add: x_def length_xor_bytes)
    then have lc: "length c = 16" and dc: "D c = x" using "1.prems"(3) by (simp_all add: c_def)
    have dm: "length (drop block_size m) mod 16 = 0"
    proof -
      have "(length m - 16) mod 16 = 0" using "1.prems"(2) len by presburger
      then show ?thesis by (simp add: block_size_def)
    qed
    have ih: "cbc_decrypt D c (cbc_encrypt E c (drop block_size m)) = drop block_size m
        \<and> length (cbc_encrypt E c (drop block_size m)) = length (drop block_size m)"
      using "1.IH" [OF False c_def [unfolded x_def b_def] lc dm "1.prems"(3)] .
    have enc: "cbc_encrypt E prev m = c @ r"
      using False by (subst cbc_encrypt.simps) (simp add: Let_def c_def x_def b_def r_def)
    have "cbc_decrypt D prev (c @ r) = xor_bytes (D c) prev @ cbc_decrypt D c r"
      using lc by (subst cbc_decrypt.simps) (auto simp: block_size_def)
    also have "\<dots> = b @ drop block_size m"
      using ih lb "1.prems"(1) by (simp add: dc x_def xor_bytes_cancel r_def)
    also have "\<dots> = m" by (simp add: b_def)
    finally have "cbc_decrypt D prev (cbc_encrypt E prev m) = m" by (simp add: enc)
    moreover have "length (cbc_encrypt E prev m) = length m"
      using ih lc len by (simp add: enc r_def block_size_def)
    ultimately show ?thesis by simp
  qed
qed

section \<open>The instance satisfies the interface\<close>

lemma code_point_uc: "n < 0x110000 \<Longrightarrow> code_point (uc n) = n"
  by (simp add: uc_def Abs_uchar_inverse)

lemma uc_code_point: "uc (code_point c) = c"
  using code_point [of c] by (simp add: uc_def code_point_inverse)

lemma is_scalar_small: "n < 256 \<Longrightarrow> is_scalar n"
  by (simp add: is_scalar_def)

lemma split64: "(m::nat) div 64 * (64 * k) + m mod 64 * k = m * k"
proof -
  define q r where "q = m div 64" and "r = m mod 64"
  have m: "m = q * 64 + r" by (simp add: q_def r_def)
  have "q * (64 * k) + r * k = (q * 64 + r) * k" by (simp add: algebra_simps)
  then show ?thesis unfolding m [symmetric] by (simp add: q_def r_def)
qed

lemma split_three: "(n::nat) div 4096 * 4096 + n div 64 mod 64 * 64 + n mod 64 = n"
proof -
  have "n div 4096 = n div 64 div 64" by (simp add: div_mult2_eq)
  then have "n div 4096 * 4096 + n div 64 mod 64 * 64 = n div 64 * 64"
    using split64 [of "n div 64" 64] by simp
  then show ?thesis by simp
qed

lemma split_four: "(n::nat) div 262144 * 262144 + n div 4096 mod 64 * 4096 + n div 64 mod 64 * 64 + n mod 64 = n"
proof -
  have a: "n div 4096 = n div 64 div 64" by (simp add: div_mult2_eq)
  have b: "n div 262144 = n div 4096 div 64" by (simp add: div_mult2_eq)
  have "n div 262144 * 262144 + n div 4096 mod 64 * 4096 = n div 4096 * 4096"
    using split64 [of "n div 4096" 4096] unfolding b by simp
  moreover have "n div 4096 * 4096 + n div 64 mod 64 * 64 = n div 64 * 64"
    using split64 [of "n div 64" 64] unfolding a by simp
  ultimately show ?thesis by simp
qed


lemma unat_byte: "n < 256 \<Longrightarrow> unat (of_nat n :: byte) = n"
  by (simp add: unat_of_nat)

lemma utf8_char_decode:
  assumes "is_scalar (code_point c)"
  shows "py_utf8_decode (utf8_char c @ r) = map_option ((#) c) (py_utf8_decode r)"
proof -
  define n where "n = code_point c"
  have sc: "is_scalar n" using assms by (simp add: n_def)
  have c: "uc n = c" by (simp add: n_def uc_code_point)
  define t1 t2 t3 where "t1 = 0x80 + n mod 64" and "t2 = 0x80 + n div 64 mod 64"
    and "t3 = 0x80 + n div 4096 mod 64"
  have ut: "unat (of_nat t1 :: byte) = t1" "unat (of_nat t2 :: byte) = t2"
      "unat (of_nat t3 :: byte) = t3"
    by (rule unat_byte, simp add: t1_def t2_def t3_def)+
  have rt: "0x80 \<le> t1" "t1 < 0xC0" "0x80 \<le> t2" "t2 < 0xC0" "0x80 \<le> t3" "t3 < 0xC0"
    by (simp_all add: t1_def t2_def t3_def)
  consider "n < 0x80" | "0x80 \<le> n" "n < 0x800" | "0x800 \<le> n" "n < 0x10000"
    | "0x10000 \<le> n" "n < 0x110000"
    using sc unfolding is_scalar_def by linarith
  then show ?thesis
  proof cases
    case 1
    then show ?thesis
      by (simp add: utf8_char_def n_def [symmetric] Let_def unat_byte c)
  next
    case 2
    define a where "a = 0xC0 + n div 64"
    have enc: "utf8_char c = [of_nat a, of_nat t1]"
      using 2 by (simp add: utf8_char_def n_def [symmetric] Let_def a_def t1_def)
    have ua: "unat (of_nat a :: byte) = a" using 2 by (intro unat_byte) (simp add: a_def)
    have ra: "\<not> a < 0x80" "0xC2 \<le> a" "a < 0xE0" using 2 by (simp_all add: a_def)
    have v: "(a - 0xC0) * 64 + (t1 - 0x80) = n" by (simp add: a_def t1_def)
    show ?thesis
      by (simp add: enc ua ut ra rt v is_cont_def c Let_def)
  next
    case 3
    define a where "a = 0xE0 + n div 4096"
    have enc: "utf8_char c = [of_nat a, of_nat t2, of_nat t1]"
      using 3 by (simp add: utf8_char_def n_def [symmetric] Let_def a_def t1_def t2_def)
    have ua: "unat (of_nat a :: byte) = a" using 3 by (intro unat_byte) (simp add: a_def)
    have ra: "\<not> a < 0x80" "\<not> (0xC2 \<le> a \<and> a < 0xE0)" "0xE0 \<le> a" "a < 0xF0"
      using 3 by (simp_all add: a_def)
    have v: "(a - 0xE0) * 4096 + (t2 - 0x80) * 64 + (t1 - 0x80) = n"
      by (simp add: a_def t1_def t2_def split_three)
    show ?thesis
      using 3 sc by (simp add: enc ua ut ra rt v is_cont_def c Let_def)
  next
    case 4
    define a where "a = 0xF0 + n div 262144"
    have enc: "utf8_char c = [of_nat a, of_nat t3, of_nat t2, of_nat t1]"
      using 4 by (simp add: utf8_char_def n_def [symmetric] Let_def a_def t1_def t2_def t3_def)
    have ua: "unat (of_nat a :: byte) = a" using 4 by (intro unat_byte) (simp add: a_def)
    have ra: "\<not> a < 0x80" "\<not> (0xC2 \<le> a \<and> a < 0xE0)" "\<not> (0xE0 \<le> a \<and> a < 0xF0)"
        "0xF0 \<le> a" "a < 0xF5"
      using 4 by (simp_all add: a_def)
    have v: "(a - 0xF0) * 262144 + (t3 - 0x80) * 4096 + (t2 - 0x80) * 64 + (t1 - 0x80) = n"
      by (simp add: a_def t1_def t2_def t3_def split_four)
    show ?thesis
      using 4 sc by (simp add: enc ua ut ra rt v is_cont_def c Let_def)
  qed
qed

lemma py_utf8_roundtrip: "encodable s \<Longrightarrow> py_utf8_decode (concat (map utf8_char s)) = Some s"
  by (induction s) (simp_all add: encodable_def utf8_char_decode)

lemma code_point_small: "n < 256 \<Longrightarrow> code_point (uc n) = n"
  by (simp add: code_point_uc)

lemma unat_byte_less: "unat (x :: byte) < 256"
  using unsigned_less [of x] by simp

lemma b64_char_code: "code_point (b64_char i) =
    (if i < 26 then 65 + i else if i < 52 then 71 + i else if i < 62 then i - 4
     else if i = 62 then 43 else 47)"
  by (simp add: b64_char_def code_point_small)

lemma b64_index_char: "i < 64 \<Longrightarrow> b64_index (b64_char i) = Some i"
  by (auto simp: b64_index_def b64_char_code Let_def)

lemma b64_char_not_pad: "i < 64 \<Longrightarrow> b64_char i \<noteq> b64_pad"
proof
  assume i: "i < 64" and "b64_char i = b64_pad"
  then have "code_point (b64_char i) = code_point (uc 61)" by (simp add: b64_pad_def)
  then show False using i by (simp add: b64_char_code code_point_small split: if_splits)
qed

lemma sextet_bounds:
  fixes a b c :: nat
  assumes "a < 256" "b < 256" "c < 256"
  shows "a div 4 < 64" "a mod 4 * 16 < 64" "a mod 4 * 16 + b div 16 < 64"
    "b mod 16 * 4 < 64" "b mod 16 * 4 + c div 64 < 64" "c mod 64 < 64"
  using assms by simp_all

lemma sextet_joins:
  fixes a b c :: nat
  assumes "b < 256" "c < 256"
  shows "a div 4 * 4 + (a mod 4 * 16) div 16 = a"
    and "a div 4 * 4 + (a mod 4 * 16 + b div 16) div 16 = a"
    and "(a mod 4 * 16 + b div 16) mod 16 * 16 + (b mod 16 * 4) div 4 = b"
    and "(a mod 4 * 16 + b div 16) mod 16 * 16 + (b mod 16 * 4 + c div 64) div 4 = b"
    and "(b mod 16 * 4 + c div 64) mod 4 * 64 + c mod 64 = c"
proof -
  have "b div 16 < 16" using assms by simp
  then have 1: "(a mod 4 * 16 + b div 16) div 16 = a mod 4"
    and 2: "(a mod 4 * 16 + b div 16) mod 16 = b div 16" by simp_all
  have "c div 64 < 4" using assms by simp
  then have 3: "(b mod 16 * 4 + c div 64) div 4 = b mod 16"
    and 4: "(b mod 16 * 4 + c div 64) mod 4 = c div 64" by simp_all
  show "a div 4 * 4 + (a mod 4 * 16) div 16 = a" by simp
  show "a div 4 * 4 + (a mod 4 * 16 + b div 16) div 16 = a" unfolding 1 by simp
  show "(a mod 4 * 16 + b div 16) mod 16 * 16 + (b mod 16 * 4) div 4 = b" unfolding 2 by simp
  show "(a mod 4 * 16 + b div 16) mod 16 * 16 + (b mod 16 * 4 + c div 64) div 4 = b"
    unfolding 2 3 by simp
  show "(b mod 16 * 4 + c div 64) mod 4 * 64 + c mod 64 = c" unfolding 4 by simp
qed

lemma b64_roundtrip: "py_b64decode (py_b64encode bs) = Some bs"
proof (induction bs rule: py_b64encode.induct)
  case 1
  show ?case by simp
next
  case (2 x)
  define a where "a = unat x"
  define s0 s1 where "s0 = a div 4" and "s1 = a mod 4 * 16"
  have a: "a < 256" by (simp add: a_def unat_byte_less)
  have enc: "py_b64encode [x] = [b64_char s0, b64_char s1, b64_pad, b64_pad]"
    by (simp add: Let_def a_def s0_def s1_def)
  have b: "s0 < 64" "s1 < 64"
    using sextet_bounds [OF a a a] by (simp_all add: s0_def s1_def)
  have "s0 * 4 + s1 div 16 = a"
    unfolding s0_def s1_def by (rule sextet_joins(1) [OF a a])
  then have j: "of_nat (s0 * 4 + s1 div 16) = x" by (simp add: a_def del: of_nat_add of_nat_mult)
  show ?case
    unfolding enc by (simp add: b64_index_char b j del: of_nat_add of_nat_mult)
next
  case (3 x y)
  define a b where "a = unat x" and "b = unat y"
  define s0 s1 s2 where "s0 = a div 4" and "s1 = a mod 4 * 16 + b div 16" and "s2 = b mod 16 * 4"
  have a: "a < 256" "b < 256" by (simp_all add: a_def b_def unat_byte_less)
  have enc: "py_b64encode [x, y] = [b64_char s0, b64_char s1, b64_char s2, b64_pad]"
    by (simp add: Let_def a_def b_def s0_def s1_def s2_def)
  have bd: "s0 < 64" "s1 < 64" "s2 < 64"
    using sextet_bounds [OF a a(1)] by (simp_all add: s0_def s1_def s2_def)
  have "s0 * 4 + s1 div 16 = a" "s1 mod 16 * 16 + s2 div 4 = b"
    unfolding s0_def s1_def s2_def
    by (rule sextet_joins(2) [OF a(2) a(1)], rule sextet_joins(3) [OF a(2) a(1)])
  then have j: "of_nat (s0 * 4 + s1 div 16) = x" "of_nat (s1 mod 16 * 16 + s2 div 4) = y"
    by (simp_all add: a_def b_def del: of_nat_add of_nat_mult)
  show ?case
    unfolding enc by (simp add: b64_index_char b64_char_not_pad bd j del: of_nat_add of_nat_mult)
next
  case (4 x y z r)
  define a b c where "a = unat x" and "b = unat y" and "c = unat z"
  define s0 s1 s2 s3 where "s0 = a div 4" and "s1 = a mod 4 * 16 + b div 16"
    and "s2 = b mod 16 * 4 + c div 64" and "s3 = c mod 64"
  have a: "a < 256" "b < 256" "c < 256" by (simp_all add: a_def b_def c_def unat_byte_less)
  have enc: "py_b64encode (x # y # z # r) =
      [b64_char s0, b64_char s1, b64_char s2, b64_char s3] @ py_b64encode r"
    by (simp add: Let_def a_def b_def c_def s0_def s1_def s2_def s3_def)
  have bd: "s0 < 64" "s1 < 64" "s2 < 64" "s3 < 64"
    using sextet_bounds [OF a] by (simp_all add: s0_def s1_def s2_def s3_def)
  have "s0 * 4 + s1 div 16 = a" "s1 mod 16 * 16 + s2 div 4 = b" "s2 mod 4 * 64 + s3 = c"
    unfolding s0_def s1_def s2_def s3_def
    by (rule sextet_joins(2) [OF a(2,3)], rule sextet_joins(4) [OF a(2,3)],
        rule sextet_joins(5) [OF a(2,3)])
  then have j: "of_nat (s0 * 4 + s1 div 16) = x" "of_nat (s1 mod 16 * 16 + s2 div 4) = y"
      "of_nat (s2 mod 4 * 64 + s3) = z"
    by (simp_all add: a_def b_def c_def del: of_nat_add of_nat_mult)
  show ?case
    unfolding enc using 4 by (simp add: b64_index_char b64_char_not_pad bd j del: of_nat_add of_nat_mult)
qed

lemma uc_eq_small [simp]: "a < 256 \<Longrightarrow> b < 256 \<Longrightarrow> uc a = uc b \<longleftrightarrow> a = b"
  by (metis code_point_small)

lemma after_prefix_append: "after_prefix p (p @ r) = Some r"
  by (simp add: after_prefix_def)

lemma read_string_append:
  assumes "dquote \<notin> set v" "backslash \<notin> set v"
  shows "read_string (v @ dquote # r) = Some (v, r)"
proof -
  have v: "\<And>x. x \<in> set v \<Longrightarrow> x \<noteq> dquote" using assms(1) by auto
  have "takeWhile (\<lambda>c. c \<noteq> dquote) (v @ dquote # r) = v"
    and "dropWhile (\<lambda>c. c \<noteq> dquote) (v @ dquote # r) = dquote # r"
    using v by simp_all
  then show ?thesis using assms(2) by (simp add: read_string_def)
qed

lemma json_roundtrip:
  assumes "dquote \<notin> set iv" "backslash \<notin> set iv" "dquote \<notin> set ct" "backslash \<notin> set ct"
  shows "py_json_loads (py_json_dumps iv ct) = Some (iv, ct)"
proof -
  have 1: \<open>ascii ''", "ciphertext": "'' = dquote # ascii '', "ciphertext": "''\<close>
    by (simp add: ascii_def dquote_def)
  have 2: \<open>ascii ''"}'' = dquote # ascii ''}''\<close>
    by (simp add: ascii_def dquote_def)
  show ?thesis
    unfolding py_json_dumps_def py_json_loads_def 1 2
    by (simp add: after_prefix_append read_string_append assms)
qed

lemma b64_char_plain: "b64_char i \<noteq> dquote" "b64_char i \<noteq> backslash"
proof -
  have "code_point (b64_char i) \<noteq> 34 \<and> code_point (b64_char i) \<noteq> 92"
    unfolding b64_char_code by (simp split: if_splits) linarith
  then show "b64_char i \<noteq> dquote" "b64_char i \<noteq> backslash"
    by (auto simp: dquote_def backslash_def code_point_small)
qed

lemma b64_pad_plain: "b64_pad \<noteq> dquote" "b64_pad \<noteq> backslash"
  by (simp_all add: b64_pad_def dquote_def backslash_def)

lemma b64encode_plain: "dquote \<notin> set (py_b64encode bs)" "backslash \<notin> set (py_b64encode bs)"
  by (induction bs rule: py_b64encode.induct)
     (simp_all add: Let_def b64_char_plain [symmetric] b64_pad_plain [symmetric])

lemma shift_cipher_ok:
  "length (shift_encrypt k b) = length b" "shift_decrypt k (shift_encrypt k b) = b"
  by (simp_all add: shift_encrypt_def shift_decrypt_def map_idI)

lemma py_json_dumps_nonempty: "py_json_dumps iv ct \<noteq> []"
  by (simp add: py_json_dumps_def ascii_def)

lemma storable_iff: "storable s = list_all storable_char s"
  by (induction s) (auto simp: storable_def encodable_def has_nul_def storable_char_def)

lemma storable_char_uc: "0 < n \<Longrightarrow> n < 256 \<Longrightarrow> storable_char (uc n)"
  by (simp add: storable_char_def code_point_small is_scalar_small)

lemma b64_char_storable: "storable_char (b64_char i)"
  by (simp add: b64_char_def storable_char_uc)

lemma b64encode_storable: "list_all storable_char (py_b64encode bs)"
  by (induction bs rule: py_b64encode.induct)
     (simp_all add: Let_def b64_char_storable b64_pad_def storable_char_uc)

lemma py_json_dumps_storable:
  "storable (py_json_dumps (py_b64encode a) (py_b64encode b))"
  unfolding py_json_dumps_def storable_iff
  by (simp add: b64encode_storable ascii_def storable_char_uc)

lemma sample_lib_ok: "lib_ok sample_lib"
  by (simp add: lib_ok_def block_cipher_ok_def codecs_ok_def sample_lib_def shift_cipher_ok
      py_utf8_encode_def py_utf8_roundtrip b64_roundtrip json_roundtrip b64encode_plain
      py_json_dumps_nonempty py_json_dumps_storable)

section \<open>Properties of the routes\<close>

lemma encrypt_data_value:
  assumes "aes_key_ok key" and "utf8_encode L x = Some plain"
  shows "encrypt_data L key src x =
     (Inr (json_dumps L (b64encode L (stake 16 src))
            (b64encode L (cbc_encrypt (aes_encrypt L key) (stake 16 src) (pad plain)))),
      sdrop 16 src)"
  using assms by (simp add: encrypt_data_def get_random_bytes_def block_size_def Let_def)

lemma encrypt_data_fails:
  "\<not> aes_key_ok key \<Longrightarrow> encrypt_data L key src x = (Inl ValueError, src)"
  "aes_key_ok key \<Longrightarrow> utf8_encode L x = None \<Longrightarrow>
     encrypt_data L key src x = (Inl UnicodeEncodeError, sdrop 16 src)"
  by (simp_all add: encrypt_data_def get_random_bytes_def block_size_def)

lemma utf8_encode_cases:
  assumes "lib_ok L"
  shows "encodable x \<Longrightarrow> \<exists>plain. utf8_encode L x = Some plain"
    and "\<not> encodable x \<Longrightarrow> utf8_encode L x = None"
  using assms by (auto simp: lib_ok_def codecs_ok_def)

lemma encrypt_data_returns:
  assumes "lib_ok L"
  shows "(\<exists>b. fst (encrypt_data L key src x) = Inr b) \<longleftrightarrow> aes_key_ok key \<and> encodable x"
proof (cases "aes_key_ok key")
  case False
  then show ?thesis by (simp add: encrypt_data_fails)
next
  case True
  show ?thesis
  proof (cases "encodable x")
    case e: True
    then obtain plain where "utf8_encode L x = Some plain"
      using utf8_encode_cases(1) [OF assms] by blast
    with True e show ?thesis by (simp add: encrypt_data_value)
  next
    case e: False
    then have "utf8_encode L x = None" using utf8_encode_cases(2) [OF assms] by blast
    with True e show ?thesis by (simp add: encrypt_data_fails)
  qed
qed

lemma encrypt_data_bundle:
  assumes "lib_ok L" and "fst (encrypt_data L key src x) = Inr b"
  shows "\<exists>c. b = json_dumps L (b64encode L (stake 16 src)) (b64encode L c)"
    and "b \<noteq> []" and "storable b"
    and "decrypt_data L key b = Inr x"
    and "snd (encrypt_data L key src x) = sdrop 16 src"
proof -
  have ok: "aes_key_ok key" "encodable x"
    using encrypt_data_returns [OF assms(1), of key src x] assms(2) by auto
  then obtain plain where plain: "utf8_encode L x = Some plain"
    using utf8_encode_cases(1) [OF assms(1)] by blast
  define iv where "iv = stake 16 src"
  define c where "c = cbc_encrypt (aes_encrypt L key) iv (pad plain)"
  have b: "b = json_dumps L (b64encode L iv) (b64encode L c)"
    using assms(2) by (simp add: encrypt_data_value [OF ok(1) plain] iv_def c_def)
  show "\<exists>c. b = json_dumps L (b64encode L (stake 16 src)) (b64encode L c)"
    using b by (auto simp: iv_def)
  have C: "utf8_decode L plain = Some x"
      "\<And>b. b64decode L (b64encode L b) = Some b"
      "\<And>a b. json_loads L (json_dumps L (b64encode L a) (b64encode L b))
          = Some (b64encode L a, b64encode L b)"
      "\<And>a b. json_dumps L (b64encode L a) (b64encode L b) \<noteq> []"
      "\<And>a b. storable (json_dumps L (b64encode L a) (b64encode L b))"
    using assms(1) plain by (simp_all add: lib_ok_def codecs_ok_def)
  show "b \<noteq> []" "storable b" by (simp_all add: b C)
  have E: "\<And>b. length b = 16 \<Longrightarrow>
      length (aes_encrypt L key b) = 16 \<and> aes_decrypt L key (aes_encrypt L key b) = b"
    using assms(1) by (simp add: lib_ok_def block_cipher_ok_def)
  have iv: "length iv = 16" by (simp add: iv_def)
  have P: "length (pad plain) mod 16 = 0"
    using pad_length_mod [of plain] by (simp add: block_size_def)
  have R: "cbc_decrypt (aes_decrypt L key) iv c = pad plain" "length c = length (pad plain)"
    using cbc_roundtrip [of "aes_encrypt L key" "aes_decrypt L key" iv "pad plain", OF E iv P]
    by (simp_all add: c_def)
  show "decrypt_data L key b = Inr x"
    using ok(1) iv P R by (simp add: b decrypt_data_def C block_size_def unpad_pad)
  show "snd (encrypt_data L key src x) = sdrop 16 src"
    by (simp add: encrypt_data_value [OF ok(1) plain])
qed

lemma insert_turn_returns:
  "(\<exists>db'. insert_turn row db = Inr db') \<longleftrightarrow>
     encodable (message_id row) \<and> \<not> has_nul (message_id row)
     \<and> in_bigint (user_id row) \<and> in_bigint (chat_id row)
     \<and> sendable (message_text row) \<and> nul_free (message_text row)
     \<and> sendable (full_answer row) \<and> nul_free (full_answer row)
     \<and> message_id row \<notin> set (map message_id db)"
  by (auto simp: insert_turn_def)

lemma insert_turn_Inr: "insert_turn row db = Inr db' \<Longrightarrow> db' = db @ [row]"
  by (auto simp: insert_turn_def split: if_splits)

lemma storable_Some: "sendable (Some s) \<and> nul_free (Some s) \<longleftrightarrow> storable s"
  by (simp add: sendable_def nul_free_def storable_def)

text \<open>The row \<open>process_message\<close> inserts and the reply it returns.\<close>

lemma process_message_unfold:
  "result (process_message L key w db message) =
     (if \<not> (in_bigint (m_user_id message) \<and> in_bigint (m_chat_id message)) then Inl DataError
      else case fst (encrypt_data L key (random_source w) (generated_answer w db message)) of
        Inl e \<Rightarrow> Inl e
      | Inr enc \<Rightarrow>
          (case insert_turn
                  \<lparr>message_id = uuid4 w, user_id = m_user_id message,
                   chat_id = m_chat_id message,
                   message_text = Some (m_message_text message), is_bot_message = False,
                   sent_at = now w, delivered_at = None, read_at = None,
                   full_answer = Some enc\<rparr> db of
             Inl e \<Rightarrow> Inl e
           | Inr db' \<Rightarrow>
               Inr (if is_authorized w (m_user_id message)
                    then \<lparr>p_full_answer = Some (generated_answer w db message),
                          p_truncated_answer = None, p_message_id = uuid4 w\<rparr>
                    else \<lparr>p_full_answer = None,
                          p_truncated_answer = Some
                            (if length (generated_answer w db message) > 100
                             then take 100 (generated_answer w db message) @ ascii ''...''
                             else generated_answer w db message),
                          p_message_id = uuid4 w\<rparr>)))"
  and process_message_store_unfold:
  "store (process_message L key w db message) =
     (if \<not> (in_bigint (m_user_id message) \<and> in_bigint (m_chat_id message)) then db
      else case fst (encrypt_data L key (random_source w) (generated_answer w db message)) of
        Inl e \<Rightarrow> db
      | Inr enc \<Rightarrow>
          (case insert_turn
                  \<lparr>message_id = uuid4 w, user_id = m_user_id message,
                   chat_id = m_chat_id message,
                   message_text = Some (m_message_text message), is_bot_message = False,
                   sent_at = now w, delivered_at = None, read_at = None,
                   full_answer = Some enc\<rparr> db of
             Inl e \<Rightarrow> db
           | Inr db' \<Rightarrow> db'))"
  by (simp_all add: process_message_def select_context_def Let_def case_prod_beta
      generated_answer_def context_window_def is_authorized_def MAX_TRUNCATED_LENGTH_def
      split: sum.splits)

lemma process_message_returns:
  assumes "lib_ok L"
  shows "(\<exists>reply. result (process_message L key w db message) = Inr reply)
     \<longleftrightarrow> process_message_accepts key w db message"
proof
  assume "\<exists>reply. result (process_message L key w db message) = Inr reply"
  then obtain reply where r: "result (process_message L key w db message) = Inr reply" ..
  from r have big: "in_bigint (m_user_id message)" "in_bigint (m_chat_id message)"
    by (auto simp: process_message_unfold split: if_splits)
  from r big obtain enc where
    enc: "fst (encrypt_data L key (random_source w) (generated_answer w db message)) = Inr enc"
    by (auto simp: process_message_unfold split: sum.splits)
  from r big enc obtain db' where
    "insert_turn
        \<lparr>message_id = uuid4 w, user_id = m_user_id message, chat_id = m_chat_id message,
         message_text = Some (m_message_text message), is_bot_message = False,
         sent_at = now w, delivered_at = None, read_at = None, full_answer = Some enc\<rparr> db
       = Inr db'"
    by (auto simp: process_message_unfold split: sum.splits)
  then have ins: "encodable (uuid4 w)" "\<not> has_nul (uuid4 w)"
      "sendable (Some (m_message_text message))" "nul_free (Some (m_message_text message))"
      "uuid4 w \<notin> set (map message_id db)"
    using insert_turn_returns [THEN iffD1, OF exI] by fastforce+
  have "aes_key_ok key" "encodable (generated_answer w db message)"
    using encrypt_data_returns [OF assms, THEN iffD1, OF exI, OF enc] by simp_all
  with big ins show "process_message_accepts key w db message"
    by (simp add: process_message_accepts_def storable_def sendable_def nul_free_def)
next
  assume a: "process_message_accepts key w db message"
  then obtain enc where
    enc: "fst (encrypt_data L key (random_source w) (generated_answer w db message)) = Inr enc"
    using encrypt_data_returns [OF assms, of key "random_source w" "generated_answer w db message"]
    by (auto simp: process_message_accepts_def)
  have st: "storable enc" using encrypt_data_bundle(3) [OF assms enc] .
  obtain db' where
    "insert_turn
        \<lparr>message_id = uuid4 w, user_id = m_user_id message, chat_id = m_chat_id message,
         message_text = Some (m_message_text message), is_bot_message = False,
         sent_at = now w, delivered_at = None, read_at = None, full_answer = Some enc\<rparr> db
       = Inr db'"
    using a st insert_turn_returns
      [of "\<lparr>message_id = uuid4 w, user_id = m_user_id message, chat_id = m_chat_id message,
         message_text = Some (m_message_text message), is_bot_message = False,
         sent_at = now w, delivered_at = None, read_at = None, full_answer = Some enc\<rparr>" db]
    by (auto simp: process_message_accepts_def storable_def sendable_def nul_free_def)
  with a enc show "\<exists>reply. result (process_message L key w db message) = Inr reply"
    by (simp add: process_message_unfold process_message_accepts_def)
qed

lemma process_message_reply:
  assumes "result (process_message L key w db message) = Inr reply"
  shows "reply =
     (if is_authorized w (m_user_id message)
      then \<lparr>p_full_answer = Some (generated_answer w db message),
            p_truncated_answer = None, p_message_id = uuid4 w\<rparr>
      else \<lparr>p_full_answer = None,
            p_truncated_answer = Some
              (if length (generated_answer w db message) > 100
               then take 100 (generated_answer w db message) @ ascii ''...''
               else generated_answer w db message),
            p_message_id = uuid4 w\<rparr>)"
  using assms by (auto simp: process_message_unfold split: if_splits sum.splits)

lemma process_message_store:
  assumes "lib_ok L" and "process_message_accepts key w db message"
  shows "store (process_message L key w db message) =
     db @ [\<lparr>message_id = uuid4 w, user_id = m_user_id message, chat_id = m_chat_id message,
            message_text = Some (m_message_text message), is_bot_message = False,
            sent_at = now w, delivered_at = None, read_at = None,
            full_answer = Some (projr (fst (encrypt_data L key (random_source w)
                                  (generated_answer w db message))))\<rparr>]"
proof -
  obtain reply where r: "result (process_message L key w db message) = Inr reply"
    using process_message_returns [OF assms(1)] assms(2) by blast
  from r have big: "in_bigint (m_user_id message)" "in_bigint (m_chat_id message)"
    by (auto simp: process_message_unfold split: if_splits)
  from r big obtain enc where
    enc: "fst (encrypt_data L key (random_source w) (generated_answer w db message)) = Inr enc"
    by (auto simp: process_message_unfold split: sum.splits)
  from r big enc obtain db' where
    ins: "insert_turn
        \<lparr>message_id = uuid4 w, user_id = m_user_id message, chat_id = m_chat_id message,
         message_text = Some (m_message_text message), is_bot_message = False,
         sent_at = now w, delivered_at = None, read_at = None, full_answer = Some enc\<rparr> db
       = Inr db'"
    by (auto simp: process_message_unfold split: sum.splits)
  show ?thesis
    using big enc ins insert_turn_Inr [OF ins] by (simp add: process_message_store_unfold)
qed

lemma check_authorization_trace:
  "set (snd (check_authorization w user)) \<subseteq> {CallAuth user, LogError}"
  by (auto simp: check_authorization_def call_service_def error_reply_def case_prod_beta
      split: http_outcome.splits if_splits)

lemma get_full_answer_denied:
  assumes "\<not> is_authorized w (q_user_id request)"
  shows "get_full_answer L key w db request =
     \<lparr>result = Inr NotAuthorized, store = db,
      trace = snd (check_authorization w (q_user_id request))\<rparr>"
  using assms by (simp add: get_full_answer_def is_authorized_def case_prod_beta)



lemma check_authorization_no_field:
  "auth_service w user = Status code body js \<Longrightarrow> r_authorized js = None \<Longrightarrow>
   \<not> is_authorized w user"
  by (auto simp: is_authorized_def check_authorization_def call_service_def error_reply_def)

lemma log_message_unfold:
  "result (log_message L key w db logged) =
     (case (if l_message_text logged \<noteq> []
            then map_sum id Some
                   (fst (encrypt_data L key (random_source w) (l_message_text logged)))
            else Inr None) of
        Inl e \<Rightarrow> Inl e
      | Inr stored \<Rightarrow>
          (case insert_turn
                  \<lparr>message_id = uuid4 w, user_id = l_user_id logged, chat_id = l_chat_id logged,
                   message_text = stored, is_bot_message = l_is_bot_message logged,
                   sent_at = now w, delivered_at = None, read_at = None, full_answer = None\<rparr>
                  db of
             Inl e \<Rightarrow> Inl e
           | Inr db' \<Rightarrow> Inr (uuid4 w)))"
  and log_message_store_unfold:
  "store (log_message L key w db logged) =
     (case (if l_message_text logged \<noteq> []
            then map_sum id Some
                   (fst (encrypt_data L key (random_source w) (l_message_text logged)))
            else Inr None) of
        Inl e \<Rightarrow> db
      | Inr stored \<Rightarrow>
          (case insert_turn
                  \<lparr>message_id = uuid4 w, user_id = l_user_id logged, chat_id = l_chat_id logged,
                   message_text = stored, is_bot_message = l_is_bot_message logged,
                   sent_at = now w, delivered_at = None, read_at = None, full_answer = None\<rparr>
                  db of
             Inl e \<Rightarrow> db
           | Inr db' \<Rightarrow> db'))"
  by (simp_all add: log_message_def Let_def split: sum.splits)

lemma log_message_store:
  assumes "lib_ok L" and "log_message_accepts key w db logged"
  shows "store (log_message L key w db logged) =
     db @ [\<lparr>message_id = uuid4 w, user_id = l_user_id logged, chat_id = l_chat_id logged,
            message_text =
              (if l_message_text logged \<noteq> []
               then Some (projr (fst (encrypt_data L key (random_source w)
                                   (l_message_text logged))))
               else None),
            is_bot_message = l_is_bot_message logged,
            sent_at = now w, delivered_at = None, read_at = None, full_answer = None\<rparr>]"
    and "result (log_message L key w db logged) = Inr (uuid4 w)"
proof -
  have a: "in_bigint (l_user_id logged)" "in_bigint (l_chat_id logged)"
      "encodable (uuid4 w)" "\<not> has_nul (uuid4 w)" "uuid4 w \<notin> set (map message_id db)"
    using assms(2) by (simp_all add: log_message_accepts_def storable_def)
  have both: "store (log_message L key w db logged) =
     db @ [\<lparr>message_id = uuid4 w, user_id = l_user_id logged, chat_id = l_chat_id logged,
            message_text =
              (if l_message_text logged \<noteq> []
               then Some (projr (fst (encrypt_data L key (random_source w)
                                   (l_message_text logged))))
               else None),
            is_bot_message = l_is_bot_message logged,
            sent_at = now w, delivered_at = None, read_at = None, full_answer = None\<rparr>]
     \<and> result (log_message L key w db logged) = Inr (uuid4 w)"
  proof (cases "l_message_text logged = []")
    case True
    with a show ?thesis
      by (simp add: log_message_unfold log_message_store_unfold insert_turn_def sendable_def
          nul_free_def)
  next
    case False
    with assms(2) have "aes_key_ok key \<and> encodable (l_message_text logged)"
      by (simp add: log_message_accepts_def)
    then obtain enc where
      enc: "fst (encrypt_data L key (random_source w) (l_message_text logged)) = Inr enc"
      using encrypt_data_returns [OF assms(1), of key "random_source w" "l_message_text logged"]
      by auto
    have "storable enc" using encrypt_data_bundle(3) [OF assms(1) enc] .
    with a False enc show ?thesis
      by (simp add: log_message_unfold log_message_store_unfold insert_turn_def sendable_def
          nul_free_def storable_def)
  qed
  then show "store (log_message L key w db logged) =
     db @ [\<lparr>message_id = uuid4 w, user_id = l_user_id logged, chat_id = l_chat_id logged,
            message_text =
              (if l_message_text logged \<noteq> []
               then Some (projr (fst (encrypt_data L key (random_source w)
                                   (l_message_text logged))))
               else None),
            is_bot_message = l_is_bot_message logged,
            sent_at = now w, delivered_at = None, read_at = None, full_answer = None\<rparr>]"
    and "result (log_message L key w db logged) = Inr (uuid4 w)"
    by simp_all
qed

lemma order_desc_sorted: "sorted_wrt (\<lambda>a b. sent_at a \<ge> sent_at b) (order_by_sent_at_desc rows)"
proof -
  have "sorted (map (\<lambda>r. - int (sent_at r)) (sort_key (\<lambda>r. - int (sent_at r)) rows))"
    by simp
  then show ?thesis
    unfolding order_by_sent_at_desc_def by (simp add: sorted_wrt_map)
qed

lemma order_desc_set: "set (order_by_sent_at_desc rows) = set rows"
  by (simp add: order_by_sent_at_desc_def)

lemma order_desc_length: "length (order_by_sent_at_desc rows) = length rows"
  by (simp add: order_by_sent_at_desc_def)

lemma context_window_rows:
  "context_window db message =
     map entry_of (window_rows db message)
       @ [\<lparr>role = ascii ''user'', content = Some (m_message_text message)\<rparr>]"
  by (simp add: context_window_def build_context_def window_rows_def entry_of_def Let_def)

lemma window_rows_ascending: "sorted (map sent_at (window_rows db message))"
proof -
  let ?ys = "order_by_sent_at_desc (turns_of db (m_user_id message) (m_chat_id message))"
  have "sorted_wrt (\<lambda>a b. sent_at a \<ge> sent_at b) (take 10 ?ys)"
    using order_desc_sorted [of "turns_of db (m_user_id message) (m_chat_id message)"]
    by (rule sorted_wrt_take)
  then have "sorted_wrt (\<lambda>a b. sent_at a \<le> sent_at b) (rev (take 10 ?ys))"
    by (simp add: sorted_wrt_rev)
  then show ?thesis
    by (simp add: window_rows_def context_rows_def turns_of_def sorted_wrt_map)
qed

lemma window_rows_most_recent:
  assumes "r \<in> set (turns_of db (m_user_id message) (m_chat_id message))"
    and "r \<notin> set (window_rows db message)" and "r' \<in> set (window_rows db message)"
  shows "sent_at r \<le> sent_at r'"
proof -
  let ?ys = "order_by_sent_at_desc (turns_of db (m_user_id message) (m_chat_id message))"
  have w: "set (window_rows db message) = set (take 10 ?ys)"
    by (simp add: window_rows_def context_rows_def turns_of_def)
  have "r \<in> set ?ys" using assms(1) by (simp add: order_desc_set)
  then have "r \<in> set (take 10 ?ys) \<union> set (drop 10 ?ys)"
    by (metis append_take_drop_id set_append)
  with assms(2) w have d: "r \<in> set (drop 10 ?ys)" by simp
  have "sorted_wrt (\<lambda>a b. sent_at a \<ge> sent_at b) (take 10 ?ys @ drop 10 ?ys)"
    using order_desc_sorted [of "turns_of db (m_user_id message) (m_chat_id message)"] by simp
  then have "\<forall>x \<in> set (take 10 ?ys). \<forall>y \<in> set (drop 10 ?ys). sent_at x \<ge> sent_at y"
    unfolding sorted_wrt_append by blast
  with d assms(3) w show ?thesis by blast
qed

lemma try_decrypt_fst: "fst (try_decrypt L key s) = shown_text L key s"
  by (simp add: try_decrypt_def shown_text_def split: sum.splits)

lemma try_decrypt_logs:
  "LogError \<in> set (snd (try_decrypt L key s)) \<longleftrightarrow> (\<exists>e. decrypt_data L key s = Inl e)"
  by (simp add: try_decrypt_def split: sum.splits)

lemma history_entry_fields:
  "h_message_text (fst (history_entry L key a row)) =
     (if truthy (message_text row) then Some (shown_text L key (the (message_text row)))
      else None)"
  "h_full_answer (fst (history_entry L key a row)) =
     (if a \<and> truthy (full_answer row) \<and> is_bot_message row
      then Some (shown_text L key (the (full_answer row))) else None)"
  "h_message_id (fst (history_entry L key a row)) = message_id row"
  by (simp_all add: history_entry_def case_prod_beta try_decrypt_fst)

lemma history_entry_logs:
  assumes "message_text row = Some s" "s \<noteq> []" "decrypt_data L key s = Inl e"
  shows "LogError \<in> set (snd (history_entry L key a row))"
  using assms try_decrypt_logs [of L key s]
  by (auto simp: history_entry_def case_prod_beta truthy_def)

lemma update_read_at_ids: "map message_id (update_read_at t mid db) = map message_id db"
  by (induction db) (simp_all add: update_read_at_def)

lemma process_message_store_cases:
  "store (process_message L key w db message) = db \<or>
   (\<exists>enc. store (process_message L key w db message) =
      db @ [\<lparr>message_id = uuid4 w, user_id = m_user_id message, chat_id = m_chat_id message,
             message_text = Some (m_message_text message), is_bot_message = False,
             sent_at = now w, delivered_at = None, read_at = None,
             full_answer = Some enc\<rparr>]
      \<and> uuid4 w \<notin> set (map message_id db))"
  by (auto simp: process_message_store_unfold insert_turn_def split: sum.splits if_splits)

lemma log_message_store_cases:
  "store (log_message L key w db message) = db \<or>
   (\<exists>enc. store (log_message L key w db message) =
      db @ [\<lparr>message_id = uuid4 w, user_id = l_user_id message, chat_id = l_chat_id message,
             message_text = enc, is_bot_message = l_is_bot_message message,
             sent_at = now w, delivered_at = None, read_at = None, full_answer = None\<rparr>]
      \<and> uuid4 w \<notin> set (map message_id db))"
  by (auto simp: log_message_store_unfold insert_turn_def split: sum.splits if_splits)

lemma get_full_answer_store_cases:
  "store (get_full_answer L key w db request) =
     (if \<exists>a. result (get_full_answer L key w db request) = Inr (FullAnswerReply a)
      then update_read_at (now w) (q_message_id request) db else db)"
  by (auto simp: get_full_answer_def Let_def case_prod_beta NotAuthorized_def NotFound_def
      split: sum.splits)

lemma get_dialog_history_store: "store (get_dialog_history L key w db user limit) = db"
  by (simp add: get_dialog_history_def Let_def case_prod_beta split: sum.splits)

section \<open>The concrete worlds\<close>

lemma demo_key_ok: "aes_key_ok demo_key"
  by (simp add: aes_key_ok_def demo_key_def)

lemma demo_world_authorized: "is_authorized (demo_world (oracle_says b) a) user = b"
  by (simp add: is_authorized_def check_authorization_def call_service_def demo_world_def
      oracle_says_def)


lemma demo_world_answer: "generated_answer (demo_world oracle a) db message = a"
  by (simp add: generated_answer_def get_ml_response_def call_service_def demo_world_def
      ml_says_def)

lemma demo_world_fields:
  "uuid4 (demo_world oracle a) = ascii ''m1''" "now (demo_world oracle a) = 1"
  "random_source (demo_world oracle a) = demo_source"
  by (simp_all add: demo_world_def)

lemma ascii_nonempty: "ascii (c # s) \<noteq> []"
  by (simp add: ascii_def)

lemma demo_texts_storable: "storable (ascii ''m1'')" "storable (ascii ''Hello'')"
  "encodable (ascii ''Hi'')" "encodable (ascii ''Hello'')"
  by (simp_all add: storable_iff ascii_def storable_char_uc encodable_def code_point_small
      is_scalar_small)

lemma encodable_replicate: "is_scalar (code_point c) \<Longrightarrow> encodable (replicate n c)"
  by (induction n) (simp_all add: encodable_def)

lemma demo_accepts:
  "encodable a \<Longrightarrow> process_message_accepts demo_key (demo_world oracle a) [] demo_message"
  by (simp add: process_message_accepts_def demo_key_ok demo_world_answer demo_world_fields
      demo_message_def demo_texts_storable in_bigint_def)

lemma demo_log_accepts:
  "log_message_accepts demo_key (demo_world oracle a) [] demo_log"
  by (simp add: log_message_accepts_def demo_key_ok demo_world_fields demo_log_def
      demo_texts_storable in_bigint_def)

lemma demo_source_draws:
  "stake 16 demo_source = map of_nat [0..<16]"
  "stake 16 (sdrop 16 demo_source) = map of_nat [16..<32]"
  "stake 16 repeating_source = replicate 16 0x11"
  "sdrop 16 repeating_source = repeating_source"
proof -
  show "stake 16 demo_source = map of_nat [0..<16]"
    unfolding demo_source_def by (subst stake_cycle_le) (simp_all add: take_map)
  have "sdrop 16 demo_source = cycle (rotate 16 (map of_nat [0..<32]))"
    unfolding demo_source_def by (subst sdrop_cycle) simp_all
  moreover have "rotate 16 (map of_nat [0..<32] :: bytes) = map of_nat ([16..<32] @ [0..<16])"
    by (simp add: rotate_drop_take drop_map take_map flip: map_append)
  ultimately show "stake 16 (sdrop 16 demo_source) = map of_nat [16..<32]"
    by (simp add: stake_cycle_le)
  show "stake 16 repeating_source = replicate 16 0x11"
    using stake_cycle_eq [of "replicate 16 (0x11 :: byte)"] by (simp add: repeating_source_def)
  show "sdrop 16 repeating_source = repeating_source"
    using sdrop_cycle_eq [of "replicate 16 (0x11 :: byte)"] by (simp add: repeating_source_def)
qed

lemma sample_decrypt_plain:
  "decrypt_data sample_lib key (ascii ''garbage'') = Inl JSONDecodeError"
  "decrypt_data sample_lib key (ascii ''Hello'') = Inl JSONDecodeError"
  by (simp_all add: decrypt_data_def sample_lib_def py_json_loads_def after_prefix_def ascii_def)

lemma sample_bundle_prefix:
  assumes "fst (encrypt_data sample_lib key src x) = Inr b"
  shows \<open>prefix (ascii ''{"iv": "'') b\<close>
proof -
  obtain c where "b = json_dumps sample_lib (b64encode sample_lib (stake 16 src))
      (b64encode sample_lib c)"
    using encrypt_data_bundle(1) [OF sample_lib_ok assms] by blast
  then show ?thesis by (simp add: sample_lib_def py_json_dumps_def)
qed

lemma demo_history_window:
  "map sent_at (window_rows demo_history demo_message) = [6, 7, 8, 9, 10, 11, 12, 13, 14, 15]"
  by (simp add: window_rows_def context_rows_def order_by_sent_at_desc_def demo_history_def
      demo_message_def upt_rec numeral_eq_Suc)

lemma retrieve_after_process:
  assumes "lib_ok L" and "process_message_accepts key w db message"
    and "is_authorized w' (m_user_id message)"
  shows "result (get_full_answer L key w' (store (process_message L key w db message))
            \<lparr>q_user_id = m_user_id message, q_message_id = uuid4 w\<rparr>)
           = Inr (FullAnswerReply (generated_answer w db message))"
    and "read_at (last (store (get_full_answer L key w'
            (store (process_message L key w db message))
            \<lparr>q_user_id = m_user_id message, q_message_id = uuid4 w\<rparr>))) = Some (now w')"
proof -
  obtain enc where
    e: "fst (encrypt_data L key (random_source w) (generated_answer w db message)) = Inr enc"
    using encrypt_data_returns [OF assms(1), of key "random_source w"
        "generated_answer w db message"] assms(2)
    by (auto simp: process_message_accepts_def)
  define row where
    "row = \<lparr>message_id = uuid4 w, user_id = m_user_id message, chat_id = m_chat_id message,
            message_text = Some (m_message_text message), is_bot_message = False,
            sent_at = now w, delivered_at = None, read_at = None, full_answer = Some enc\<rparr>"
  have st: "store (process_message L key w db message) = db @ [row]"
    by (simp add: process_message_store [OF assms(1,2)] row_def e)
  have "uuid4 w \<notin> set (map message_id db)"
    using assms(2) by (simp add: process_message_accepts_def)
  then have "filter (\<lambda>r. message_id r = uuid4 w \<and> user_id r = m_user_id message) db = []"
    by (force simp: filter_empty_conv image_iff)
  then have sel: "select_full_answer (db @ [row]) (uuid4 w) (m_user_id message) = Some enc"
    by (simp add: select_full_answer_def row_def)
  have ne: "enc \<noteq> []" using encrypt_data_bundle(2) [OF assms(1) e] .
  have dec: "decrypt_data L key enc = Inr (generated_answer w db message)"
    using encrypt_data_bundle(4) [OF assms(1) e] .
  have au: "fst (check_authorization w' (m_user_id message))"
    using assms(3) by (simp add: is_authorized_def)
  have res: "result (get_full_answer L key w' (db @ [row])
            \<lparr>q_user_id = m_user_id message, q_message_id = uuid4 w\<rparr>)
           = Inr (FullAnswerReply (generated_answer w db message))"
    and sto: "store (get_full_answer L key w' (db @ [row])
            \<lparr>q_user_id = m_user_id message, q_message_id = uuid4 w\<rparr>)
           = update_read_at (now w') (uuid4 w) (db @ [row])"
    using au sel ne dec
    by (simp_all add: get_full_answer_def case_prod_beta Let_def truthy_def)
  have "read_at (last (update_read_at (now w') (uuid4 w) (db @ [row]))) = Some (now w')"
    by (simp add: update_read_at_def row_def)
  with res sto show
    "result (get_full_answer L key w' (store (process_message L key w db message))
            \<lparr>q_user_id = m_user_id message, q_message_id = uuid4 w\<rparr>)
           = Inr (FullAnswerReply (generated_answer w db message))"
    "read_at (last (store (get_full_answer L key w'
            (store (process_message L key w db message))
            \<lparr>q_user_id = m_user_id message, q_message_id = uuid4 w\<rparr>))) = Some (now w')"
    by (simp_all add: st)
qed

lemma process_message_accepted:
  assumes "lib_ok L" and "process_message_accepts key w db message"
  shows "result (process_message L key w db message) =
     Inr (if is_authorized w (m_user_id message)
          then \<lparr>p_full_answer = Some (generated_answer w db message),
                p_truncated_answer = None, p_message_id = uuid4 w\<rparr>
          else \<lparr>p_full_answer = None,
                p_truncated_answer = Some
                  (if length (generated_answer w db message) > 100
                   then take 100 (generated_answer w db message) @ ascii ''...''
                   else generated_answer w db message),
                p_message_id = uuid4 w\<rparr>)"
proof -
  obtain reply where r: "result (process_message L key w db message) = Inr reply"
    using process_message_returns [OF assms(1)] assms(2) by blast
  show ?thesis using process_message_reply [OF r] r by simp
qed

section \<open>Claims\<close>



text \<open>
  C2. When the oracle does not grant the user, \<open>get_full_answer\<close> returns
  \<open>{"error": "Not authorized"}\<close>, the table is unchanged (\<open>read_at\<close> included), and the
  request made no call but the one to the Auth Service and, when that failed, its log
  entry: no connection, no query, no update, no decryption.
\<close>

theorem get_full_answer_unauthorized:
  assumes "\<not> is_authorized w (q_user_id request)"
  shows "result (get_full_answer L key w db request) = Inr NotAuthorized
         \<and> store (get_full_answer L key w db request) = db
         \<and> set (trace (get_full_answer L key w db request))
             \<subseteq> {CallAuth (q_user_id request), LogError}"
  using assms check_authorization_trace [of w "q_user_id request"]
  by (simp add: get_full_answer_denied)

text \<open>User 1 is denied the answer stored under his own message \<open>m1\<close>.\<close>

theorem get_full_answer_unauthorized_witness:
  "result (get_full_answer sample_lib demo_key (demo_world (oracle_says False) [])
       [stored_turn (ascii ''m1'') 1 (Some (ascii ''secret''))] demo_request) = Inr NotAuthorized
   \<and> store (get_full_answer sample_lib demo_key (demo_world (oracle_says False) [])
       [stored_turn (ascii ''m1'') 1 (Some (ascii ''secret''))] demo_request)
     = [stored_turn (ascii ''m1'') 1 (Some (ascii ''secret''))]
   \<and> set (trace (get_full_answer sample_lib demo_key (demo_world (oracle_says False) [])
       [stored_turn (ascii ''m1'') 1 (Some (ascii ''secret''))] demo_request))
     \<subseteq> {CallAuth 1, LogError}"
  using get_full_answer_unauthorized
    [of "demo_world (oracle_says False) []" demo_request sample_lib demo_key
        "[stored_turn (ascii ''m1'') 1 (Some (ascii ''secret''))]"]
  by (simp add: demo_world_authorized demo_request_def)

text \<open>
  C3, as amended. When the oracle does not grant the user, \<open>process_message\<close> returns
  no \<open>full_answer\<close>, and as \<open>truncated_answer\<close> the answer \<open>A\<close> itself when it has at
  most 100 characters, and otherwise its first 100 characters followed by the three
  characters \<open>...\<close> (three full stops). The part before the marker is a prefix of \<open>A\<close>
  of at most 100 characters. The route returns exactly when the request is one it
  accepts (\<open>process_message_accepts\<close>: identifiers within \<open>BIGINT\<close>, a key AES accepts,
  an answer without surrogates, a message text and an identifier the database stores, the
  identifier new to the table); on any other request it raises and returns nothing.
\<close>

theorem process_message_unauthorized:
  assumes "lib_ok L" and "\<not> is_authorized w (m_user_id message)"
  shows "(process_message_accepts key w db message \<longrightarrow>
            result (process_message L key w db message) =
              Inr \<lparr>p_full_answer = None,
                   p_truncated_answer = Some
                     (if length (generated_answer w db message) > 100
                      then take 100 (generated_answer w db message) @ ascii ''...''
                      else generated_answer w db message),
                   p_message_id = uuid4 w\<rparr>)
         \<and> (\<forall>reply. result (process_message L key w db message) = Inr reply \<longrightarrow>
              process_message_accepts key w db message
              \<and> reply =
                 \<lparr>p_full_answer = None,
                  p_truncated_answer = Some
                    (if length (generated_answer w db message) > 100
                     then take 100 (generated_answer w db message) @ ascii ''...''
                     else generated_answer w db message),
                  p_message_id = uuid4 w\<rparr>)
         \<and> prefix (take 100 (generated_answer w db message)) (generated_answer w db message)
         \<and> length (take 100 (generated_answer w db message)) \<le> 100"
proof -
  let ?A = "generated_answer w db message"
  let ?E = "\<lparr>p_full_answer = None,
             p_truncated_answer = Some
               (if length ?A > 100 then take 100 ?A @ ascii ''...'' else ?A),
             p_message_id = uuid4 w\<rparr>"
  have 1: "process_message_accepts key w db message \<longrightarrow>
      result (process_message L key w db message) = Inr ?E"
  proof
    assume "process_message_accepts key w db message"
    from process_message_accepted [OF assms(1) this] assms(2)
    show "result (process_message L key w db message) = Inr ?E" by simp
  qed
  have 2: "\<forall>reply. result (process_message L key w db message) = Inr reply \<longrightarrow>
      process_message_accepts key w db message \<and> reply = ?E"
  proof (intro allI impI conjI)
    fix reply
    assume r: "result (process_message L key w db message) = Inr reply"
    then have "\<exists>reply. result (process_message L key w db message) = Inr reply" ..
    then show "process_message_accepts key w db message"
      by (simp only: process_message_returns [OF assms(1)])
    from process_message_reply [OF r] assms(2) show "reply = ?E" by simp
  qed
  have 3: "prefix (take 100 ?A) ?A" by (rule take_is_prefix)
  have 4: "length (take 100 ?A) \<le> 100" by simp
  from 1 2 3 4 show ?thesis by - (intro conjI; assumption)
qed

text \<open>An unauthorized user and an answer of 120 characters.\<close>

theorem process_message_unauthorized_witness:
  "result (process_message sample_lib demo_key
       (demo_world (oracle_says False) (replicate 120 (uc 97))) [] demo_message) =
     Inr \<lparr>p_full_answer = None,
          p_truncated_answer = Some (replicate 100 (uc 97) @ ascii ''...''),
          p_message_id = ascii ''m1''\<rparr>"
proof -
  have e: "encodable (replicate 120 (uc 97))"
    by (rule encodable_replicate) (simp add: code_point_small is_scalar_small)
  have n: "\<not> is_authorized (demo_world (oracle_says False) (replicate 120 (uc 97)))
      (m_user_id demo_message)"
    by (simp add: demo_world_authorized)
  from process_message_unauthorized [OF sample_lib_ok n, of demo_key "[]", THEN conjunct1]
  show ?thesis
    by (simp add: demo_accepts [OF e] demo_world_answer demo_world_fields)
qed

text \<open>C3 as stated names the single character U+2026 as the marker; on the same input
  the route does not return the first 100 characters followed by that character.\<close>

theorem process_message_marker_counterexample:
  "result (process_message sample_lib demo_key
       (demo_world (oracle_says False) (replicate 120 (uc 97))) [] demo_message) \<noteq>
     Inr \<lparr>p_full_answer = None,
          p_truncated_answer = Some (take 100 (replicate 120 (uc 97)) @ [horizontal_ellipsis]),
          p_message_id = ascii ''m1''\<rparr>"
proof -
  have e: "encodable (replicate 120 (uc 97))"
    by (rule encodable_replicate) (simp add: code_point_small is_scalar_small)
  show ?thesis
    by (simp add: process_message_accepted [OF sample_lib_ok demo_accepts [OF e]]
        demo_world_authorized demo_world_answer demo_world_fields ascii_def)
qed

text \<open>
  C4. When the oracle grants the user, \<open>process_message\<close> returns the generated answer
  as \<open>full_answer\<close> and no \<open>truncated_answer\<close>. As for C3, the route returns exactly
  when the request is one it accepts, and raises on any other.
\<close>

theorem process_message_authorized:
  assumes "lib_ok L" and "is_authorized w (m_user_id message)"
  shows "(process_message_accepts key w db message \<longrightarrow>
            result (process_message L key w db message) =
              Inr \<lparr>p_full_answer = Some (generated_answer w db message),
                   p_truncated_answer = None, p_message_id = uuid4 w\<rparr>)
         \<and> (\<forall>reply. result (process_message L key w db message) = Inr reply \<longrightarrow>
              process_message_accepts key w db message
              \<and> reply =
                 \<lparr>p_full_answer = Some (generated_answer w db message),
                  p_truncated_answer = None, p_message_id = uuid4 w\<rparr>)"
proof -
  let ?E = "\<lparr>p_full_answer = Some (generated_answer w db message),
             p_truncated_answer = None, p_message_id = uuid4 w\<rparr>"
  have 1: "process_message_accepts key w db message \<longrightarrow>
      result (process_message L key w db message) = Inr ?E"
  proof
    assume "process_message_accepts key w db message"
    from process_message_accepted [OF assms(1) this] assms(2)
    show "result (process_message L key w db message) = Inr ?E" by simp
  qed
  have 2: "\<forall>reply. result (process_message L key w db message) = Inr reply \<longrightarrow>
      process_message_accepts key w db message \<and> reply = ?E"
  proof (intro allI impI conjI)
    fix reply
    assume r: "result (process_message L key w db message) = Inr reply"
    then have "\<exists>reply. result (process_message L key w db message) = Inr reply" ..
    then show "process_message_accepts key w db message"
      by (simp only: process_message_returns [OF assms(1)])
    from process_message_reply [OF r] assms(2) show "reply = ?E" by simp
  qed
  from 1 2 show ?thesis by - (intro conjI; assumption)
qed

text \<open>An authorized user and an answer of 120 characters.\<close>

theorem process_message_authorized_witness:
  "result (process_message sample_lib demo_key
       (demo_world (oracle_says True) (replicate 120 (uc 97))) [] demo_message) =
     Inr \<lparr>p_full_answer = Some (replicate 120 (uc 97)), p_truncated_answer = None,
          p_message_id = ascii ''m1''\<rparr>"
proof -
  have e: "encodable (replicate 120 (uc 97))"
    by (rule encodable_replicate) (simp add: code_point_small is_scalar_small)
  have a: "is_authorized (demo_world (oracle_says True) (replicate 120 (uc 97)))
      (m_user_id demo_message)"
    by (simp add: demo_world_authorized)
  from process_message_authorized [OF sample_lib_ok a, of demo_key "[]", THEN conjunct1]
  show ?thesis
    by (simp add: demo_accepts [OF e] demo_world_answer demo_world_fields)
qed

text \<open>
  C5 fails on \<open>process_message\<close>. The route encrypts the answer and stores the user's
  message as it came: after the message \<open>Hello\<close> is processed, the \<open>message_text\<close> of
  the row is the text \<open>Hello\<close> itself, which is no \<open>{iv, ciphertext}\<close> bundle.
  (\<open>log_message\<close> encrypts the same column, and \<open>get_dialog_history\<close> decrypts it.)
\<close>

theorem process_message_stores_plaintext:
  "map message_text
     (store (process_message sample_lib demo_key (demo_world (oracle_says False) (ascii ''Hi''))
        [] demo_message))
   = [Some (ascii ''Hello'')]
   \<and> m_message_text demo_message = ascii ''Hello''
   \<and> json_loads sample_lib (ascii ''Hello'') = None"
proof -
  have "json_loads sample_lib (ascii ''Hello'') = None"
    by (simp add: sample_lib_def py_json_loads_def after_prefix_def ascii_def)
  moreover have "m_message_text demo_message = ascii ''Hello''"
    by (simp add: demo_message_def)
  ultimately show ?thesis
    by (simp add: process_message_store [OF sample_lib_ok demo_accepts [OF demo_texts_storable(3)]])
qed

text \<open>
  C6 fails on \<open>process_message\<close>. Its \<open>INSERT\<close> names no \<open>is_bot_message\<close>, so the row
  takes the default \<open>FALSE\<close>, and it sets \<open>full_answer\<close>: the user's turn carries the
  encrypted answer. (\<open>get_dialog_history\<close> releases \<open>full_answer\<close> only from rows whose
  \<open>is_bot_message\<close> is true.)
\<close>

theorem process_message_full_answer_on_user_turn:
  "map (\<lambda>r. (is_bot_message r, full_answer r))
     (store (process_message sample_lib demo_key (demo_world (oracle_says False) (ascii ''Hi''))
        [] demo_message))
   = [(False, Some (projr (fst (encrypt_data sample_lib demo_key demo_source (ascii ''Hi'')))))]"
  by (simp add: process_message_store [OF sample_lib_ok demo_accepts [OF demo_texts_storable(3)]]
      demo_world_fields demo_world_answer)

text \<open>
  C7 fails on the content of the entries. The context is built from \<open>message_text\<close> as
  stored, with no call of \<open>decrypt_data\<close>: for a turn that \<open>log_message\<close> stored, the
  ML service receives the JSON bundle \<open>{"iv": ..., "ciphertext": ...}\<close>, not the text
  \<open>Hi\<close> it decrypts to.
\<close>

theorem context_window_passes_ciphertext:
  \<open>map content
     (context_window
        (store (log_message sample_lib demo_key (demo_world (oracle_says True) []) [] demo_log))
        demo_message)
   = [Some (projr (fst (encrypt_data sample_lib demo_key demo_source (ascii ''Hi'')))),
      Some (ascii ''Hello'')]
   \<and> prefix (ascii ''{"iv": "'')
        (projr (fst (encrypt_data sample_lib demo_key demo_source (ascii ''Hi''))))
   \<and> decrypt_data sample_lib demo_key
        (projr (fst (encrypt_data sample_lib demo_key demo_source (ascii ''Hi''))))
      = Inr (ascii ''Hi'')\<close>
proof -
  obtain b where b: "fst (encrypt_data sample_lib demo_key demo_source (ascii ''Hi'')) = Inr b"
    using encrypt_data_returns [OF sample_lib_ok, of demo_key demo_source "ascii ''Hi''"]
    by (auto simp: demo_key_ok demo_texts_storable)
  have p: \<open>prefix (ascii ''{"iv": "'') b\<close>
    using b by (rule sample_bundle_prefix)
  have d: "decrypt_data sample_lib demo_key b = Inr (ascii ''Hi'')"
    using encrypt_data_bundle(4) [OF sample_lib_ok b] .
  have n: "ascii ''Hi'' \<noteq> []" by (simp add: ascii_def)
  have st: "store (log_message sample_lib demo_key (demo_world (oracle_says True) []) []
        demo_log)
      = [\<lparr>message_id = ascii ''m1'', user_id = 1, chat_id = 1, message_text = Some b,
          is_bot_message = False, sent_at = 1, delivered_at = None, read_at = None,
          full_answer = None\<rparr>]"
    unfolding log_message_store(1) [OF sample_lib_ok demo_log_accepts]
    by (simp add: demo_world_fields demo_log_def n b)
  have "map content
     (context_window
        (store (log_message sample_lib demo_key (demo_world (oracle_says True) []) [] demo_log))
        demo_message)
   = [Some b, Some (ascii ''Hello'')]"
    unfolding st
    by (simp add: demo_message_def context_window_def build_context_def
        context_rows_def order_by_sent_at_desc_def)
  with p d show ?thesis by (simp add: b)
qed



text \<open>C8 as stated fails twice. For the text that is one lone surrogate,
  \<open>encrypt_data\<close> raises \<open>UnicodeEncodeError\<close> and there is nothing to decrypt. And the
  IVs of two calls are only as distinct as the draws of the random source: on a source that
  yields the same 16 bytes twice, two calls in a row bundle the same IV.\<close>

theorem encrypt_data_counterexample:
  "fst (encrypt_data sample_lib demo_key demo_source lone_surrogate) = Inl UnicodeEncodeError
   \<and> snd (encrypt_data sample_lib demo_key repeating_source (ascii ''Hello''))
       = repeating_source
   \<and> map_option fst (json_loads sample_lib
        (projr (fst (encrypt_data sample_lib demo_key repeating_source (ascii ''Hello'')))))
       = Some (b64encode sample_lib (replicate 16 0x11))
   \<and> map_option fst (json_loads sample_lib
        (projr (fst (encrypt_data sample_lib demo_key repeating_source (ascii ''Hi'')))))
       = Some (b64encode sample_lib (replicate 16 0x11))"
proof -
  have "\<not> encodable lone_surrogate"
    by (simp add: lone_surrogate_def encodable_def code_point_uc is_scalar_def)
  then have 1: "fst (encrypt_data sample_lib demo_key demo_source lone_surrogate)
      = Inl UnicodeEncodeError"
    using utf8_encode_cases(2) [OF sample_lib_ok]
    by (simp add: encrypt_data_fails(2) [OF demo_key_ok])
  have call: "snd (encrypt_data sample_lib demo_key repeating_source t) = repeating_source
      \<and> map_option fst (json_loads sample_lib
          (projr (fst (encrypt_data sample_lib demo_key repeating_source t))))
        = Some (b64encode sample_lib (replicate 16 0x11))" if enc: "encodable t" for t
  proof -
    obtain b where b: "fst (encrypt_data sample_lib demo_key repeating_source t) = Inr b"
      using encrypt_data_returns [OF sample_lib_ok, of demo_key repeating_source t] enc
      by (auto simp: demo_key_ok)
    obtain c where c: "b = json_dumps sample_lib (b64encode sample_lib
        (stake 16 repeating_source)) (b64encode sample_lib c)"
      using encrypt_data_bundle(1) [OF sample_lib_ok b] by blast
    have "json_loads sample_lib b
        = Some (b64encode sample_lib (replicate 16 0x11), b64encode sample_lib c)"
      using sample_lib_ok by (simp add: c lib_ok_def codecs_ok_def demo_source_draws)
    then show ?thesis
      using encrypt_data_bundle(5) [OF sample_lib_ok b] by (simp add: b demo_source_draws)
  qed
  from 1 call [OF demo_texts_storable(4)] call [OF demo_texts_storable(3)]
  show ?thesis by simp
qed

text \<open>
  C9 fails on \<open>get_full_answer\<close>. The route calls \<open>decrypt_data\<close> outside any
  \<open>try\<close>: on a stored answer that does not decrypt, the exception escapes the request,
  nothing is logged by the route and no placeholder is returned. On the same table
  \<open>get_dialog_history\<close>, which wraps each decryption in \<open>try ... except\<close>, returns its
  placeholder.
\<close>

theorem get_full_answer_decryption_failure_escapes:
  "result (get_full_answer sample_lib demo_key (demo_world (oracle_says True) [])
       [stored_turn (ascii ''m1'') 1 (Some (ascii ''garbage''))] demo_request)
     = Inl JSONDecodeError
   \<and> trace (get_full_answer sample_lib demo_key (demo_world (oracle_says True) [])
       [stored_turn (ascii ''m1'') 1 (Some (ascii ''garbage''))] demo_request)
     = [CallAuth 1, DbConnect, DbFetch, Decrypt, DbClose]
   \<and> result (get_dialog_history sample_lib demo_key (demo_world (oracle_says True) [])
       [stored_turn (ascii ''m1'') 1 (Some (ascii ''garbage''))] 1 20)
     = Inr [\<lparr>h_message_id = ascii ''m1'', h_is_bot_message = False, h_sent_at = 1,
             h_message_text = Some decrypt_placeholder, h_full_answer = None\<rparr>]"
  by (simp add: get_full_answer_def get_dialog_history_def check_authorization_def
      call_service_def demo_world_def oracle_says_def demo_request_def stored_turn_def
      select_full_answer_def select_history_def order_by_sent_at_desc_def truthy_def
      history_entry_def try_decrypt_def sample_decrypt_plain Let_def ascii_nonempty in_bigint_def)

text \<open>
  C10 fails on an error payload. \<open>check_authorization\<close> reads
  \<open>result.get("authorized", False)\<close> and never looks at an \<open>error\<close> field: when the
  Auth Service answers with status 200 and a payload that carries an error beside
  \<open>authorized: true\<close>, the user is granted, \<open>process_message\<close> returns the full answer
  and \<open>get_full_answer\<close> releases the stored one. On the same payload the sibling
  \<open>get_ml_response\<close>, which tests \<open>"error" in result\<close> first, takes the failure branch.
\<close>

theorem check_authorization_grants_error_payload:
  "oracle_call_failed (oracle_with_error 1)
   \<and> fst (check_authorization (demo_world oracle_with_error (ascii ''Hi'')) 1) = True
   \<and> result (process_message sample_lib demo_key
        (demo_world oracle_with_error (ascii ''Hi'')) [] demo_message)
       = Inr \<lparr>p_full_answer = Some (ascii ''Hi''), p_truncated_answer = None,
              p_message_id = ascii ''m1''\<rparr>
   \<and> result (get_full_answer sample_lib demo_key (demo_world oracle_with_error [])
        (store (process_message sample_lib demo_key
           (demo_world oracle_with_error (ascii ''Hi'')) [] demo_message))
        demo_request)
       = Inr (FullAnswerReply (ascii ''Hi''))
   \<and> fst (get_ml_response
        ((demo_world oracle_with_error (ascii ''Hi'')) \<lparr>ml_service := ml_with_error\<rparr>)
        1 (ascii ''Hello'') []) = ml_apology"
proof -
  have a: "is_authorized (demo_world oracle_with_error t) 1" for t
    by (simp add: is_authorized_def check_authorization_def call_service_def demo_world_def
        oracle_with_error_def error_payload_def)
  have acc: "process_message_accepts demo_key (demo_world oracle_with_error (ascii ''Hi''))
      [] demo_message"
    by (rule demo_accepts) (rule demo_texts_storable)
  have 1: "oracle_call_failed (oracle_with_error 1)"
    by (simp add: oracle_call_failed_def oracle_with_error_def error_payload_def)
  have 2: "fst (check_authorization (demo_world oracle_with_error (ascii ''Hi'')) 1) = True"
    using a [of "ascii ''Hi''"] by (simp add: is_authorized_def)
  have 3: "result (process_message sample_lib demo_key
        (demo_world oracle_with_error (ascii ''Hi'')) [] demo_message)
       = Inr \<lparr>p_full_answer = Some (ascii ''Hi''), p_truncated_answer = None,
              p_message_id = ascii ''m1''\<rparr>"
    using process_message_accepted [OF sample_lib_ok acc] a [of "ascii ''Hi''"]
    by (simp add: demo_message_def demo_world_answer demo_world_fields)
  have 4: "result (get_full_answer sample_lib demo_key (demo_world oracle_with_error [])
        (store (process_message sample_lib demo_key
           (demo_world oracle_with_error (ascii ''Hi'')) [] demo_message))
        demo_request)
       = Inr (FullAnswerReply (ascii ''Hi''))"
    using retrieve_after_process(1) [OF sample_lib_ok acc, of "demo_world oracle_with_error []"]
      a [of "[]"]
    by (simp add: demo_message_def demo_request_def demo_world_fields demo_world_answer)
  have 5: "fst (get_ml_response
        ((demo_world oracle_with_error (ascii ''Hi'')) \<lparr>ml_service := ml_with_error\<rparr>)
        1 (ascii ''Hello'') []) = ml_apology"
    by (simp add: get_ml_response_def call_service_def ml_with_error_def error_payload_def)
  from 1 2 3 4 5 show ?thesis by simp
qed

section \<open>Further properties of the routes\<close>

text \<open>
  X1. The context window. The context handed to the ML service is one entry per row of
  the window, made from the row as stored, followed by the new message with role
  \<open>user\<close>. The window holds the 10 most recent turns of the (user, chat) pair, or all of
  them when there are fewer, oldest first: no turn of the pair outside the window was sent
  later than a turn inside it.
\<close>

theorem context_window_shape:
  "context_window db message =
     map entry_of (window_rows db message)
       @ [\<lparr>role = ascii ''user'', content = Some (m_message_text message)\<rparr>]
   \<and> length (window_rows db message)
       = min 10 (length (turns_of db (m_user_id message) (m_chat_id message)))
   \<and> set (window_rows db message) \<subseteq> set (turns_of db (m_user_id message) (m_chat_id message))
   \<and> sorted (map sent_at (window_rows db message))
   \<and> (\<forall>r \<in> set (turns_of db (m_user_id message) (m_chat_id message)).
        \<forall>r' \<in> set (window_rows db message).
          r \<notin> set (window_rows db message) \<longrightarrow> sent_at r \<le> sent_at r')"
proof -
  have l: "length (window_rows db message)
       = min 10 (length (turns_of db (m_user_id message) (m_chat_id message)))"
    by (simp add: window_rows_def context_rows_def turns_of_def order_desc_length)
  have s: "set (window_rows db message)
      \<subseteq> set (turns_of db (m_user_id message) (m_chat_id message))"
    using set_take_subset [of 10 "order_by_sent_at_desc
        (turns_of db (m_user_id message) (m_chat_id message))"]
    by (simp add: window_rows_def context_rows_def turns_of_def order_desc_set)
  show ?thesis
    using context_window_rows l s window_rows_ascending window_rows_most_recent by blast
qed

text \<open>Fifteen stored turns: the window holds those sent at times 6 to 15, and the context
  has 11 entries.\<close>

theorem context_window_shape_witness:
  "length (context_window demo_history demo_message) = 11
   \<and> map sent_at (window_rows demo_history demo_message) = [6, 7, 8, 9, 10, 11, 12, 13, 14, 15]
   \<and> last (context_window demo_history demo_message)
       = \<lparr>role = ascii ''user'', content = Some (ascii ''Hello'')\<rparr>"
proof -
  have l: "length (window_rows demo_history demo_message) = 10"
    using arg_cong [OF demo_history_window, of length] by simp
  from context_window_shape [of demo_history demo_message]
  have "context_window demo_history demo_message =
     map entry_of (window_rows demo_history demo_message)
       @ [\<lparr>role = ascii ''user'', content = Some (m_message_text demo_message)\<rparr>]"
    by blast
  then show ?thesis
    using l demo_history_window by (simp add: demo_message_def)
qed

text \<open>
  X2. \<open>get_dialog_history\<close> survives a failed decryption. For a user id and a limit
  within \<open>BIGINT\<close>, the limit not negative, the route returns one entry per selected row
  and leaves the table as it was; where the stored \<open>message_text\<close> of a row does not
  decrypt, the entry shows the placeholder and the failure is logged.
\<close>

theorem get_dialog_history_survives_decryption_failure:
  assumes "0 \<le> limit" and "in_bigint limit" and "in_bigint user"
  shows "\<exists>rows. select_history db user limit = Inr rows
     \<and> result (get_dialog_history L key w db user limit)
         = Inr (map (\<lambda>row. fst (history_entry L key (is_authorized w user) row)) rows)
     \<and> store (get_dialog_history L key w db user limit) = db
     \<and> (\<forall>row \<in> set rows. \<forall>s e.
           message_text row = Some s \<and> s \<noteq> [] \<and> decrypt_data L key s = Inl e \<longrightarrow>
             h_message_text (fst (history_entry L key (is_authorized w user) row))
               = Some decrypt_placeholder
             \<and> LogError \<in> set (trace (get_dialog_history L key w db user limit)))"
proof -
  define rows where
    "rows = take (nat limit) (order_by_sent_at_desc (filter (\<lambda>r. user_id r = user) db))"
  have sel: "select_history db user limit = Inr rows"
    using assms by (simp add: select_history_def rows_def)
  have res: "result (get_dialog_history L key w db user limit)
         = Inr (map (\<lambda>row. fst (history_entry L key (is_authorized w user) row)) rows)"
    and st: "store (get_dialog_history L key w db user limit) = db"
    and tr: "trace (get_dialog_history L key w db user limit) =
       DbConnect # snd (check_authorization w user) @ [DbFetch]
         @ concat (map (\<lambda>row. snd (history_entry L key (is_authorized w user) row)) rows)
         @ [DbClose]"
    by (simp_all add: get_dialog_history_def sel case_prod_beta Let_def is_authorized_def comp_def)
  have "h_message_text (fst (history_entry L key (is_authorized w user) row))
               = Some decrypt_placeholder
             \<and> LogError \<in> set (trace (get_dialog_history L key w db user limit))"
    if "row \<in> set rows" "message_text row = Some s" "s \<noteq> []" "decrypt_data L key s = Inl e"
    for row s e
  proof -
    have "LogError \<in> set (snd (history_entry L key (is_authorized w user) row))"
      using that(2-4) by (rule history_entry_logs)
    then have "LogError \<in> set (trace (get_dialog_history L key w db user limit))"
      using that(1) unfolding tr by auto
    moreover have "h_message_text (fst (history_entry L key (is_authorized w user) row))
        = Some decrypt_placeholder"
      using that(2-4) by (simp add: history_entry_fields truthy_def shown_text_def)
    ultimately show ?thesis by simp
  qed
  with sel res st show ?thesis by blast
qed

theorem get_dialog_history_survives_decryption_failure_witness:
  "result (get_dialog_history sample_lib demo_key (demo_world (oracle_says True) [])
       [stored_turn (ascii ''m1'') 1 None] 1 20)
     = Inr [\<lparr>h_message_id = ascii ''m1'', h_is_bot_message = False, h_sent_at = 1,
             h_message_text = Some decrypt_placeholder, h_full_answer = None\<rparr>]
   \<and> LogError \<in> set (trace (get_dialog_history sample_lib demo_key
       (demo_world (oracle_says True) []) [stored_turn (ascii ''m1'') 1 None] 1 20))"
proof -
  have sel: "select_history [stored_turn (ascii ''m1'') 1 None] 1 20
      = Inr [stored_turn (ascii ''m1'') 1 None]"
    by (simp add: select_history_def order_by_sent_at_desc_def stored_turn_def in_bigint_def)
  have mt: "message_text (stored_turn (ascii ''m1'') 1 None) = Some (ascii ''Hello'')"
    "ascii ''Hello'' \<noteq> []"
    by (simp_all add: stored_turn_def ascii_nonempty)
  have big: "in_bigint 20" "in_bigint 1" by (simp_all add: in_bigint_def)
  from get_dialog_history_survives_decryption_failure
    [OF _ big, of "[stored_turn (ascii ''m1'') 1 None]" sample_lib demo_key
        "demo_world (oracle_says True) []"]
  obtain rows where r: "select_history [stored_turn (ascii ''m1'') 1 None] 1 20 = Inr rows"
     "result (get_dialog_history sample_lib demo_key (demo_world (oracle_says True) [])
         [stored_turn (ascii ''m1'') 1 None] 1 20)
       = Inr (map (\<lambda>row. fst (history_entry sample_lib demo_key
            (is_authorized (demo_world (oracle_says True) []) 1) row)) rows)"
     "\<forall>row \<in> set rows. \<forall>s e.
           message_text row = Some s \<and> s \<noteq> [] \<and> decrypt_data sample_lib demo_key s = Inl e \<longrightarrow>
             h_message_text (fst (history_entry sample_lib demo_key
                (is_authorized (demo_world (oracle_says True) []) 1) row))
               = Some decrypt_placeholder
             \<and> LogError \<in> set (trace (get_dialog_history sample_lib demo_key
                  (demo_world (oracle_says True) []) [stored_turn (ascii ''m1'') 1 None] 1 20))"
    by auto
  from r(1) sel have rows: "rows = [stored_turn (ascii ''m1'') 1 None]" by simp
  have "LogError \<in> set (trace (get_dialog_history sample_lib demo_key
       (demo_world (oracle_says True) []) [stored_turn (ascii ''m1'') 1 None] 1 20))"
    using r(3) mt sample_decrypt_plain(2) [of demo_key] unfolding rows by auto
  moreover have "result (get_dialog_history sample_lib demo_key (demo_world (oracle_says True) [])
       [stored_turn (ascii ''m1'') 1 None] 1 20)
     = Inr [\<lparr>h_message_id = ascii ''m1'', h_is_bot_message = False, h_sent_at = 1,
             h_message_text = Some decrypt_placeholder, h_full_answer = None\<rparr>]"
    unfolding r(2) rows
    by (simp add: history_entry_def try_decrypt_def stored_turn_def truthy_def
        ascii_nonempty sample_decrypt_plain)
  ultimately show ?thesis by simp
qed

text \<open>
  X3. Every route keeps the primary key of \<open>dialogs\<close>.
\<close>

theorem routes_keep_primary_key:
  assumes "primary_key db"
  shows "primary_key (store (process_message L key w db message))
     \<and> primary_key (store (log_message L key w db logged))
     \<and> primary_key (store (get_full_answer L key w db request))
     \<and> primary_key (store (get_dialog_history L key w db user limit))"
proof -
  have 1: "primary_key (store (process_message L key w db message))"
    using assms process_message_store_cases [of L key w db message]
    by (auto simp: primary_key_def)
  have 2: "primary_key (store (log_message L key w db logged))"
    using assms log_message_store_cases [of L key w db logged]
    by (auto simp: primary_key_def)
  have 3: "primary_key (store (get_full_answer L key w db request))"
    using assms by (simp add: get_full_answer_store_cases primary_key_def update_read_at_ids)
  show ?thesis using 1 2 3 assms by (simp add: get_dialog_history_store)
qed

theorem routes_keep_primary_key_witness:
  "primary_key (store (process_message sample_lib demo_key
       (demo_world (oracle_says True) (ascii ''Hi'')) [] demo_message))
   \<and> primary_key (store (log_message sample_lib demo_key
       (demo_world (oracle_says True) (ascii ''Hi'')) [] demo_log))"
  using routes_keep_primary_key
    [of "[]" sample_lib demo_key "demo_world (oracle_says True) (ascii ''Hi'')" demo_message
        demo_log]
  by (simp add: primary_key_def)

text \<open>
  X4. What the two inserting routes persist, on a request they accept.
  \<open>process_message\<close> appends one row: the user's message as it came,
  \<open>is_bot_message\<close> false, and as \<open>full_answer\<close> a bundle that decrypts to the generated
  answer. \<open>log_message\<close> appends one row with no \<open>full_answer\<close>, whose \<open>message_text\<close>
  is \<open>NULL\<close> for an empty text and otherwise a bundle that decrypts to the text.
\<close>

theorem persisted_bundles_decrypt:
  assumes "lib_ok L" and "process_message_accepts key w db message"
    and "log_message_accepts key w db logged"
  shows "(\<exists>enc. store (process_message L key w db message) =
            db @ [\<lparr>message_id = uuid4 w, user_id = m_user_id message,
                   chat_id = m_chat_id message,
                   message_text = Some (m_message_text message), is_bot_message = False,
                   sent_at = now w, delivered_at = None, read_at = None,
                   full_answer = Some enc\<rparr>]
            \<and> decrypt_data L key enc = Inr (generated_answer w db message))
       \<and> (\<exists>stored. store (log_message L key w db logged) =
            db @ [\<lparr>message_id = uuid4 w, user_id = l_user_id logged,
                   chat_id = l_chat_id logged,
                   message_text = stored, is_bot_message = l_is_bot_message logged,
                   sent_at = now w, delivered_at = None, read_at = None,
                   full_answer = None\<rparr>]
            \<and> (if l_message_text logged = [] then stored = None
                else \<exists>enc. stored = Some enc
                       \<and> decrypt_data L key enc = Inr (l_message_text logged)))"
proof -
  obtain e1 where e1:
    "fst (encrypt_data L key (random_source w) (generated_answer w db message)) = Inr e1"
    using encrypt_data_returns [OF assms(1), of key "random_source w"
        "generated_answer w db message"] assms(2)
    by (auto simp: process_message_accepts_def)
  have 1: "decrypt_data L key e1 = Inr (generated_answer w db message)"
    using encrypt_data_bundle(4) [OF assms(1) e1] .
  have 2: "decrypt_data L key
      (projr (fst (encrypt_data L key (random_source w) (l_message_text logged))))
      = Inr (l_message_text logged)" if ne: "l_message_text logged \<noteq> []"
  proof -
    obtain e2 where e2:
      "fst (encrypt_data L key (random_source w) (l_message_text logged)) = Inr e2"
      using encrypt_data_returns [OF assms(1), of key "random_source w"
          "l_message_text logged"] assms(3) ne
      by (auto simp: log_message_accepts_def)
    show ?thesis using encrypt_data_bundle(4) [OF assms(1) e2] by (simp add: e2)
  qed
  show ?thesis
    using 1 2
    by (simp add: process_message_store [OF assms(1,2)] log_message_store(1) [OF assms(1,3)] e1)
qed

theorem persisted_bundles_decrypt_witness:
  "(\<exists>enc. map full_answer (store (process_message sample_lib demo_key
        (demo_world (oracle_says False) (ascii ''Hi'')) [] demo_message)) = [Some enc]
      \<and> decrypt_data sample_lib demo_key enc = Inr (ascii ''Hi''))
   \<and> (\<exists>enc. map message_text (store (log_message sample_lib demo_key
        (demo_world (oracle_says False) (ascii ''Hi'')) [] demo_log)) = [Some enc]
      \<and> decrypt_data sample_lib demo_key enc = Inr (ascii ''Hi''))"
  using persisted_bundles_decrypt
    [OF sample_lib_ok demo_accepts [OF demo_texts_storable(3), of "oracle_says False"]
        demo_log_accepts]
  by (auto simp: demo_world_answer demo_log_def ascii_nonempty)

text \<open>
  X5. A withheld answer is released later. After \<open>process_message\<close> stored an answer,
  a request of the same user for the returned \<open>message_id\<close>, made when the oracle grants
  him, returns the generated answer in full and stamps \<open>read_at\<close> of the row.
\<close>

theorem withheld_answer_retrieved_later:
  assumes "lib_ok L" and "process_message_accepts key w db message"
    and "is_authorized w' (m_user_id message)"
  shows "result (get_full_answer L key w' (store (process_message L key w db message))
            \<lparr>q_user_id = m_user_id message, q_message_id = uuid4 w\<rparr>)
           = Inr (FullAnswerReply (generated_answer w db message))
       \<and> read_at (last (store (get_full_answer L key w'
            (store (process_message L key w db message))
            \<lparr>q_user_id = m_user_id message, q_message_id = uuid4 w\<rparr>))) = Some (now w')"
  using retrieve_after_process [OF assms] by simp

theorem withheld_answer_retrieved_later_witness:
  "result (get_full_answer sample_lib demo_key (demo_world (oracle_says True) [])
      (store (process_message sample_lib demo_key
         (demo_world (oracle_says False) (replicate 120 (uc 97))) [] demo_message))
      demo_request)
     = Inr (FullAnswerReply (replicate 120 (uc 97)))"
proof -
  have e: "encodable (replicate 120 (uc 97))"
    by (rule encodable_replicate) (simp add: code_point_small is_scalar_small)
  show ?thesis
    using withheld_answer_retrieved_later
      [OF sample_lib_ok demo_accepts [OF e], of "demo_world (oracle_says True) []"
          "oracle_says False"]
    by (simp add: demo_world_fields demo_world_answer demo_world_authorized
        demo_message_def demo_request_def)
qed

text \<open>
  X6. \<open>read_at\<close> is set by an authorized, successful retrieval only. The inserting
  routes add rows with \<open>read_at\<close> null and leave the others alone,
  \<open>get_dialog_history\<close> changes nothing, and \<open>get_full_answer\<close> changes the table only
  when the oracle granted the user and the answer was returned.
\<close>

theorem read_at_set_only_by_retrieval:
  "(\<forall>r \<in> set (store (process_message L key w db message)). r \<in> set db \<or> read_at r = None)
   \<and> (\<forall>r \<in> set (store (log_message L key w db logged)). r \<in> set db \<or> read_at r = None)
   \<and> store (get_dialog_history L key w db user limit) = db
   \<and> (store (get_full_answer L key w db request) \<noteq> db \<longrightarrow>
        is_authorized w (q_user_id request)
        \<and> (\<exists>a. result (get_full_answer L key w db request) = Inr (FullAnswerReply a)))"
proof -
  have 1: "\<forall>r \<in> set (store (process_message L key w db message)). r \<in> set db \<or> read_at r = None"
    using process_message_store_cases [of L key w db message] by auto
  have 2: "\<forall>r \<in> set (store (log_message L key w db logged)). r \<in> set db \<or> read_at r = None"
    using log_message_store_cases [of L key w db logged] by auto
  have 3: "store (get_full_answer L key w db request) \<noteq> db \<longrightarrow>
        is_authorized w (q_user_id request)
        \<and> (\<exists>a. result (get_full_answer L key w db request) = Inr (FullAnswerReply a))"
    by (auto simp: get_full_answer_def Let_def case_prod_beta is_authorized_def
        split: sum.splits if_splits)
  from 1 2 3 show ?thesis by (simp add: get_dialog_history_store)
qed

theorem read_at_set_only_by_retrieval_witness:
  "map read_at (store (process_message sample_lib demo_key
       (demo_world (oracle_says True) (ascii ''Hi'')) [] demo_message)) = [None]
   \<and> map read_at (store (log_message sample_lib demo_key
       (demo_world (oracle_says True) (ascii ''Hi'')) [] demo_log)) = [None]"
proof -
  have a: "length (store (process_message sample_lib demo_key
       (demo_world (oracle_says True) (ascii ''Hi'')) [] demo_message)) = 1"
    by (simp add: process_message_store [OF sample_lib_ok demo_accepts [OF demo_texts_storable(3)]])
  have b: "length (store (log_message sample_lib demo_key
       (demo_world (oracle_says True) (ascii ''Hi'')) [] demo_log)) = 1"
    by (simp add: log_message_store(1) [OF sample_lib_ok demo_log_accepts])
  from a obtain x where x: "store (process_message sample_lib demo_key
       (demo_world (oracle_says True) (ascii ''Hi'')) [] demo_message) = [x]"
    by (auto simp: length_Suc_conv)
  from b obtain y where y: "store (log_message sample_lib demo_key
       (demo_world (oracle_says True) (ascii ''Hi'')) [] demo_log) = [y]"
    by (auto simp: length_Suc_conv)
  show ?thesis
    using read_at_set_only_by_retrieval
      [of sample_lib demo_key "demo_world (oracle_says True) (ascii ''Hi'')" "[]" demo_message
          demo_log]
    by (simp add: x y)
qed



end
